theory Spec2Isabelle
  imports Main "HOL-Library.AList"
begin

section \<open>Values, strings and errors\<close>

text \<open>
  A cell of a pandas table as the pipeline sees it after \<^verbatim>\<open>read_csv\<close>: a missing value
  (\<^verbatim>\<open>NaN\<close>), a string, an integer or a boolean. Floating point cells are outside the
  model. A column that \<^verbatim>\<open>read_csv\<close> infers holds values of one kind besides the missing
  ones, so cells are compared as they are written (Python's \<^verbatim>\<open>True == 1\<close> does not arise
  within a column). A \<open>char\<close> stands for one code point of a Python \<^verbatim>\<open>str\<close> (below
  256).
\<close>

datatype cell = NA | Str string | Num int | Bool bool

type_synonym path = "string list"

datatype py_error =
    MissingColumns string "string list"
  | EmptySeparator
  | ParticipantCountMismatch "(cell \<times> nat) list" int
  | TypeError
  | KeyError string
  | FileExistsError path
  | FileNotFoundError path
  | NotADirectoryError path
  | IsADirectoryError path

text \<open>\<^verbatim>\<open>pd.isna(value)\<close>.\<close>

fun isna :: "cell \<Rightarrow> bool" where
  "isna NA = True"
| "isna _ = False"

text \<open>\<^verbatim>\<open>str(i)\<close> for an integer: decimal digits, with a minus sign when negative.\<close>

definition digit_char :: "nat \<Rightarrow> char" where
  "digit_char n = ''0123456789'' ! n"

fun str_nat :: "nat \<Rightarrow> string" where
  "str_nat n = (if n < 10 then [digit_char n] else str_nat (n div 10) @ [digit_char (n mod 10)])"

declare str_nat.simps [simp del]

definition str_int :: "int \<Rightarrow> string" where
  "str_int i = (if i < 0 then CHR ''-'' # str_nat (nat (- i)) else str_nat (nat i))"

text \<open>
  \<^verbatim>\<open>str(value)\<close> of a cell. The codec only calls it on cells that are not missing; the
  text of a missing value is the one of \<^verbatim>\<open>float('nan')\<close>.
\<close>

fun py_str :: "cell \<Rightarrow> string" where
  "py_str NA = ''nan''"
| "py_str (Str s) = s"
| "py_str (Num i) = str_int i"
| "py_str (Bool b) = (if b then ''True'' else ''False'')"

text \<open>
  \<^verbatim>\<open>str.isspace\<close> on one character and \<^verbatim>\<open>str.strip()\<close>: the code points below 256
  that Python counts as whitespace are 9 to 13, 28 to 32, 133 and 160.
\<close>

definition isspace :: "char \<Rightarrow> bool" where
  "isspace ch = (let n = (of_char ch :: nat) in
     (9 \<le> n \<and> n \<le> 13) \<or> (28 \<le> n \<and> n \<le> 32) \<or> n = 133 \<or> n = 160)"

definition strip :: "string \<Rightarrow> string" where
  "strip s = rev (dropWhile isspace (rev (dropWhile isspace s)))"

text \<open>
  \<^verbatim>\<open>s.split(sep)\<close> with an explicit separator: the occurrences of \<open>sep\<close> are found from
  the left and do not overlap; an empty separator raises \<^verbatim>\<open>ValueError\<close>. The accumulator
  holds the characters of the piece being read.
\<close>

fun split_from :: "string \<Rightarrow> string \<Rightarrow> string \<Rightarrow> string list" where
  "split_from sep acc [] = [acc]"
| "split_from sep acc (c # cs) =
     (if take (length sep) (c # cs) = sep then acc # split_from sep [] (drop (length sep - 1) cs)
      else split_from sep (acc @ [c]) cs)"

definition py_split :: "string \<Rightarrow> string \<Rightarrow> py_error + string list" where
  "py_split s sep = (if sep = [] then Inl EmptySeparator else Inr (split_from sep [] s))"

text \<open>\<^verbatim>\<open>sep.join(parts)\<close>; a part that is not a string raises \<^verbatim>\<open>TypeError\<close>.\<close>

fun join :: "string \<Rightarrow> string list \<Rightarrow> string" where
  "join sep [] = []"
| "join sep [x] = x"
| "join sep (x # y # ys) = x @ sep @ join sep (y # ys)"

fun is_str :: "cell \<Rightarrow> bool" where
  "is_str (Str s) = True"
| "is_str _ = False"

definition py_join :: "string \<Rightarrow> cell list \<Rightarrow> py_error + string" where
  "py_join sep parts =
     (if list_all is_str parts then Inr (join sep (map py_str parts)) else Inl TypeError)"

text \<open>\<^verbatim>\<open>Series.apply(f)\<close>: \<open>f\<close> on every element in order; the first exception ends it.\<close>

fun series_apply :: "('a \<Rightarrow> py_error + 'b) \<Rightarrow> 'a list \<Rightarrow> py_error + 'b list" where
  "series_apply f [] = Inr []"
| "series_apply f (x # xs) =
     (case f x of
        Inl e \<Rightarrow> Inl e
      | Inr y \<Rightarrow> (case series_apply f xs of Inl e \<Rightarrow> Inl e | Inr ys \<Rightarrow> Inr (y # ys)))"

section \<open>The delimited column codec (data_processing.py)\<close>

text \<open>
  The inner function \<^verbatim>\<open>_split\<close> of \<^verbatim>\<open>parse_delimited_column\<close>, on one cell. With
  \<open>drop_empty\<close> false a missing or empty cell comes back as it is, in a list.
\<close>

definition split_cell :: "string \<Rightarrow> bool \<Rightarrow> cell \<Rightarrow> py_error + cell list" where
  "split_cell delimiter drop_empty v =
     (if isna v \<or> v = Str [] then Inr (if drop_empty then [] else [v])
      else (case py_split (py_str v) delimiter of
              Inl e \<Rightarrow> Inl e
            | Inr pieces \<Rightarrow>
                (let parts = map strip pieces
                 in Inr (map Str (if drop_empty then filter (\<lambda>p. p \<noteq> []) parts else parts)))))"

definition parse_delimited_column ::
  "cell list \<Rightarrow> string \<Rightarrow> bool \<Rightarrow> py_error + cell list list" where
  "parse_delimited_column series delimiter drop_empty =
     series_apply (split_cell delimiter drop_empty) series"

section \<open>Tables\<close>

text \<open>
  A \<^verbatim>\<open>DataFrame\<close> is its column names, in order, and its rows; a row gives the cell
  under each column name. The row index is not part of the model (the tables are written
  with \<^verbatim>\<open>index=False\<close>).
\<close>

type_synonym row = "(string \<times> cell) list"

record frame =
  columns :: "string list"
  rows :: "row list"

definition cell_of :: "row \<Rightarrow> string \<Rightarrow> cell" where
  "cell_of r c = (case map_of r c of None \<Rightarrow> NA | Some v \<Rightarrow> v)"

text \<open>\<^verbatim>\<open>df[column]\<close>: the cells of a column, \<^verbatim>\<open>KeyError\<close> when there is no such column.\<close>

definition get_column :: "frame \<Rightarrow> string \<Rightarrow> py_error + cell list" where
  "get_column df c =
     (if c \<in> set (columns df) then Inr (map (\<lambda>r. cell_of r c) (rows df)) else Inl (KeyError c))"

text \<open>
  \<^verbatim>\<open>out[name] = values\<close> with one value per row: an existing column is replaced where it
  stands, a new one is added last.
\<close>

definition set_column :: "frame \<Rightarrow> string \<Rightarrow> cell list \<Rightarrow> frame" where
  "set_column df c vs =
     \<lparr>columns = (if c \<in> set (columns df) then columns df else columns df @ [c]),
      rows = map (\<lambda>(r, v). AList.update c v r) (zip (rows df) vs)\<rparr>"

text \<open>\<^verbatim>\<open>df.drop(columns=[c])\<close>, \<^verbatim>\<open>df.rename(columns={old: new})\<close> and \<^verbatim>\<open>df[names]\<close>.\<close>

definition drop_column :: "frame \<Rightarrow> string \<Rightarrow> py_error + frame" where
  "drop_column df c =
     (if c \<in> set (columns df)
      then Inr \<lparr>columns = filter (\<lambda>n. n \<noteq> c) (columns df),
                rows = map (AList.delete c) (rows df)\<rparr>
      else Inl (KeyError c))"

definition rename_columns :: "frame \<Rightarrow> (string \<times> string) list \<Rightarrow> frame" where
  "rename_columns df renames =
     (let new_name = (\<lambda>n. case map_of renames n of None \<Rightarrow> n | Some m \<Rightarrow> m)
      in \<lparr>columns = map new_name (columns df),
          rows = map (map (\<lambda>(n, v). (new_name n, v))) (rows df)\<rparr>)"

definition select_columns :: "frame \<Rightarrow> string list \<Rightarrow> py_error + frame" where
  "select_columns df names =
     (case filter (\<lambda>n. n \<notin> set (columns df)) names of
        [] \<Rightarrow> Inr \<lparr>columns = names, rows = map (\<lambda>r. map (\<lambda>n. (n, cell_of r n)) names) (rows df)\<rparr>
      | n # _ \<Rightarrow> Inl (KeyError n))"

section \<open>Codec operations on tables (data_processing.py)\<close>

definition normalize_delimited_column :: "frame \<Rightarrow> string \<Rightarrow> string \<Rightarrow> py_error + frame" where
  "normalize_delimited_column df column delimiter =
     (if column \<notin> set (columns df) then Inr df
      else (case get_column df column of
              Inl e \<Rightarrow> Inl e
            | Inr series \<Rightarrow>
                (case parse_delimited_column series delimiter True of
                   Inl e \<Rightarrow> Inl e
                 | Inr list_series \<Rightarrow>
                     (case series_apply
                             (\<lambda>parts. case py_join delimiter parts of
                                         Inl e \<Rightarrow> Inl e
                                       | Inr s \<Rightarrow> Inr (Str s)) list_series of
                        Inl e \<Rightarrow> Inl e
                      | Inr joined \<Rightarrow> Inr (set_column df column joined)))))"

text \<open>
  The name \<^verbatim>\<open>f"{prefix}_{i}"\<close> of slot \<open>i\<close>, the value
  \<^verbatim>\<open>lst[idx] if idx < len(lst) else pd.NA\<close> of a slot, and
  \<^verbatim>\<open>list_series.map(len).max() if not list_series.empty else 0\<close>.
\<close>

definition slot_name :: "string \<Rightarrow> nat \<Rightarrow> string" where
  "slot_name prefix i = prefix @ ''_'' @ str_nat i"

definition slot :: "nat \<Rightarrow> cell list \<Rightarrow> cell" where
  "slot idx lst = (if idx < length lst then lst ! idx else NA)"

definition inferred_max :: "cell list list \<Rightarrow> nat" where
  "inferred_max list_series =
     (if list_series = [] then 0 else Max (set (map length list_series)))"

definition split_delimited_to_columns ::
  "frame \<Rightarrow> string \<Rightarrow> string \<Rightarrow> string \<Rightarrow> int option \<Rightarrow> py_error + frame" where
  "split_delimited_to_columns df column prefix delimiter max_parts =
     (if column \<notin> set (columns df) then Inr df
      else (case get_column df column of
              Inl e \<Rightarrow> Inl e
            | Inr series \<Rightarrow>
                (case parse_delimited_column series delimiter True of
                   Inl e \<Rightarrow> Inl e
                 | Inr list_series \<Rightarrow>
                     (let max_len = (case max_parts of
                                       Some m \<Rightarrow> m
                                     | None \<Rightarrow> int (inferred_max list_series))
                      in Inr (fold (\<lambda>i out. set_column out (slot_name prefix i)
                                                (map (slot i) list_series))
                                [0..<nat max_len] df)))))"

text \<open>
  \<^verbatim>\<open>explode_delimited_column\<close>: the column is replaced by its token lists, \<^verbatim>\<open>explode\<close>
  gives one row per token and one row with a missing value for an empty list,
  \<^verbatim>\<open>dropna\<close> removes the rows whose value is missing, and the column is renamed.
  \<^verbatim>\<open>value_name or column\<close> takes the column's name for \<^verbatim>\<open>None\<close> and for the empty
  string.
\<close>

definition explode_row :: "string \<Rightarrow> row \<times> cell list \<Rightarrow> row list" where
  "explode_row column rl =
     (case rl of (r, lst) \<Rightarrow>
        if lst = [] then [AList.update column NA r]
        else map (\<lambda>t. AList.update column t r) lst)"

definition explode_delimited_column ::
  "frame \<Rightarrow> string \<Rightarrow> string \<Rightarrow> string option \<Rightarrow> py_error + frame" where
  "explode_delimited_column df column delimiter value_name =
     (let name = (case value_name of None \<Rightarrow> column | Some n \<Rightarrow> if n = [] then column else n)
      in (case get_column df column of
            Inl e \<Rightarrow> Inl e
          | Inr series \<Rightarrow>
              (case parse_delimited_column series delimiter True of
                 Inl e \<Rightarrow> Inl e
               | Inr list_series \<Rightarrow>
                   (let exploded = concat (map (explode_row column) (zip (rows df) list_series));
                        kept = filter (\<lambda>r. \<not> isna (cell_of r column)) exploded
                    in Inr (rename_columns \<lparr>columns = columns df, rows = kept\<rparr>
                              [(column, name)])))))"

section \<open>Splitting reference tables (split_columns.py)\<close>

text \<open>
  \<^verbatim>\<open>fillna("")\<close> on one cell, and the list the comprehension of \<^verbatim>\<open>split_column\<close> builds
  for one value of the filled series.
\<close>

definition fillna :: "cell \<Rightarrow> cell" where
  "fillna v = (if isna v then Str [] else v)"

definition parts_of :: "string \<Rightarrow> cell \<Rightarrow> py_error + cell list" where
  "parts_of delimiter val =
     (if val \<noteq> Str []
      then (case py_split (py_str val) delimiter of
              Inl e \<Rightarrow> Inl e
            | Inr pieces \<Rightarrow> Inr (map (\<lambda>p. Str (strip p)) (filter (\<lambda>p. strip p \<noteq> []) pieces)))
      else Inr [])"

text \<open>
  \<^verbatim>\<open>split_column\<close>. \<^verbatim>\<open>max(..., default=0)\<close> runs over the lengths; the new columns are
  assigned in order, the original column is dropped when asked, and the columns are put
  in the order that places the new ones where the original stood.
\<close>

definition split_column ::
  "frame \<Rightarrow> string \<Rightarrow> string \<Rightarrow> string \<Rightarrow> int option \<Rightarrow> bool \<Rightarrow> py_error + frame" where
  "split_column df column prefix delimiter max_parts drop_original =
     (if column \<notin> set (columns df) then Inr df
      else (case get_column df column of
              Inl e \<Rightarrow> Inl e
            | Inr col \<Rightarrow>
                (case series_apply (parts_of delimiter) (map fillna col) of
                   Inl e \<Rightarrow> Inl e
                 | Inr parts_list \<Rightarrow>
                     (let width = (case max_parts of
                                     Some m \<Rightarrow> m
                                   | None \<Rightarrow> int (fold max (map length parts_list) 0));
                          new_cols = map (\<lambda>i. (slot_name prefix i, map (slot i) parts_list))
                                       [0..<nat width];
                          out = fold (\<lambda>(name, vals) out. set_column out name vals) new_cols df;
                          ordered_cols =
                            concat (map (\<lambda>col. if col = column
                                               then (if \<not> drop_original then [col] else [])
                                                    @ map fst new_cols
                                               else [col]) (columns df))
                      in (case (if drop_original then drop_column out column else Inr out) of
                            Inl e \<Rightarrow> Inl e
                          | Inr out2 \<Rightarrow> select_columns out2 ordered_cols)))))"

section \<open>Validation (data_processing.py)\<close>

definition ensure_columns :: "frame \<Rightarrow> string list \<Rightarrow> string \<Rightarrow> py_error + unit" where
  "ensure_columns df required label =
     (let missing = filter (\<lambda>col. col \<notin> set (columns df)) required
      in if missing \<noteq> [] then Inl (MissingColumns label missing) else Inr ())"

text \<open>
  \<^verbatim>\<open>groupby("match_id")["puuid"].nunique()\<close>: rows with a missing key are in no group, and
  missing values are not counted. The result is a \<^verbatim>\<open>dict\<close>, read through its entries:
  the order of its keys carries no meaning.
\<close>

definition nunique :: "cell list \<Rightarrow> nat" where
  "nunique vs = length (remdups (filter (\<lambda>v. \<not> isna v) vs))"

definition validate_participant_counts ::
  "frame \<Rightarrow> int \<Rightarrow> bool \<Rightarrow> py_error + (cell \<times> nat) list" where
  "validate_participant_counts participants expected_per_match strict =
     (case get_column participants ''match_id'' of
        Inl e \<Rightarrow> Inl e
      | Inr match_ids \<Rightarrow>
          (case get_column participants ''puuid'' of
             Inl e \<Rightarrow> Inl e
           | Inr puuids \<Rightarrow>
               (let groups = remdups (filter (\<lambda>m. \<not> isna m) match_ids);
                    counts = map (\<lambda>m. (m, nunique (map snd (filter (\<lambda>(k, u). k = m)
                                                              (zip match_ids puuids))))) groups;
                    bad = filter (\<lambda>(m, n). int n \<noteq> expected_per_match) counts
                in if bad = [] then Inr []
                   else if strict then Inl (ParticipantCountMismatch bad expected_per_match)
                   else Inr bad)))"

section \<open>Core transformations (data_processing.py)\<close>

text \<open>
  The comparisons \<^verbatim>\<open>placement <= win_threshold\<close> and \<^verbatim>\<open>tier_current > 0\<close> on one
  cell: a missing number compares false, a boolean counts as 0 or 1, and a string against
  a number raises \<^verbatim>\<open>TypeError\<close>.
\<close>

fun le_threshold :: "int \<Rightarrow> cell \<Rightarrow> py_error + cell" where
  "le_threshold t NA = Inr (Bool False)"
| "le_threshold t (Str s) = Inl TypeError"
| "le_threshold t (Num n) = Inr (Bool (n \<le> t))"
| "le_threshold t (Bool b) = Inr (Bool ((if b then 1 else 0) \<le> t))"

fun gt_zero :: "cell \<Rightarrow> py_error + bool" where
  "gt_zero NA = Inr False"
| "gt_zero (Str s) = Inl TypeError"
| "gt_zero (Num n) = Inr (n > 0)"
| "gt_zero (Bool b) = Inr b"

definition add_participant_flags :: "frame \<Rightarrow> int \<Rightarrow> py_error + frame" where
  "add_participant_flags participants win_threshold =
     (case ensure_columns participants [''placement''] ''participants'' of
        Inl e \<Rightarrow> Inl e
      | Inr u \<Rightarrow>
          (case get_column participants ''placement'' of
             Inl e \<Rightarrow> Inl e
           | Inr placement \<Rightarrow>
               (case series_apply (le_threshold win_threshold) placement of
                  Inl e \<Rightarrow> Inl e
                | Inr is_win \<Rightarrow> Inr (set_column participants ''is_win'' is_win))))"

text \<open>\<^verbatim>\<open>traits.loc[traits["tier_current"] > 0].copy()\<close>.\<close>

definition active_traits :: "frame \<Rightarrow> py_error + frame" where
  "active_traits traits =
     (case get_column traits ''tier_current'' of
        Inl e \<Rightarrow> Inl e
      | Inr tier \<Rightarrow>
          (case series_apply gt_zero tier of
             Inl e \<Rightarrow> Inl e
           | Inr keep \<Rightarrow>
               Inr \<lparr>columns = columns traits,
                    rows = map fst (filter snd (zip (rows traits) keep))\<rparr>))"

section \<open>The file system\<close>

text \<open>
  A path is the list of its components, relative to the working directory \<open>[]\<close>, which is
  always a directory; \<^verbatim>\<open>base_dir / label\<close> appends the components of the label. A file
  holds a table (the text of the CSV is not modelled). The world also records the paths
  that \<^verbatim>\<open>read_csv\<close> was called on, in order.
\<close>

datatype node = Dir | File frame

record world =
  nodes :: "path \<Rightarrow> node option"
  reads :: "path list"

definition node_at :: "world \<Rightarrow> path \<Rightarrow> node option" where
  "node_at w p = (if p = [] then Some Dir else nodes w p)"

text \<open>\<^verbatim>\<open>Path.exists()\<close>.\<close>

definition path_exists :: "world \<Rightarrow> path \<Rightarrow> bool" where
  "path_exists w p = (node_at w p \<noteq> None)"

fun is_file :: "node option \<Rightarrow> bool" where
  "is_file (Some (File t)) = True"
| "is_file _ = False"

text \<open>The directories above a path, from the top: its proper, non-empty prefixes.\<close>

definition ancestors :: "path \<Rightarrow> path list" where
  "ancestors p = map (\<lambda>k. take k p) [1..<length p]"

text \<open>
  \<^verbatim>\<open>Path.mkdir(parents=True, exist_ok=...)\<close>: an existing directory is accepted only with
  \<open>exist_ok\<close>, an existing file never; a regular file in the place of a directory above
  the path makes the operating system refuse; otherwise the path and the missing
  directories above it are created.
\<close>

definition mkdir_parents :: "world \<Rightarrow> path \<Rightarrow> bool \<Rightarrow> py_error + world" where
  "mkdir_parents w p exist_ok =
     (case node_at w p of
        Some Dir \<Rightarrow> if exist_ok then Inr w else Inl (FileExistsError p)
      | Some (File t) \<Rightarrow> Inl (FileExistsError p)
      | None \<Rightarrow>
          (if list_ex (\<lambda>q. is_file (node_at w q)) (ancestors p) then Inl (NotADirectoryError p)
           else Inr (w\<lparr>nodes := (\<lambda>q. if q \<in> set (ancestors p @ [p]) \<and> nodes w q = None
                                      then Some Dir else nodes w q)\<rparr>)))"

text \<open>\<^verbatim>\<open>pd.read_csv(path)\<close> and \<^verbatim>\<open>df.to_csv(path, index=False)\<close>.\<close>

definition read_csv :: "world \<Rightarrow> path \<Rightarrow> (py_error + frame) \<times> world" where
  "read_csv w p =
     (let w' = w\<lparr>reads := reads w @ [p]\<rparr>
      in (case node_at w p of
            Some (File t) \<Rightarrow> (Inr t, w')
          | Some Dir \<Rightarrow> (Inl (IsADirectoryError p), w')
          | None \<Rightarrow> (Inl (FileNotFoundError p), w')))"

definition to_csv :: "world \<Rightarrow> frame \<Rightarrow> path \<Rightarrow> py_error + world" where
  "to_csv w df p =
     (case node_at w p of
        Some Dir \<Rightarrow> Inl (IsADirectoryError p)
      | _ \<Rightarrow>
          (case node_at w (butlast p) of
             Some Dir \<Rightarrow> Inr (w\<lparr>nodes := (nodes w)(p \<mapsto> File df)\<rparr>)
           | Some (File t) \<Rightarrow> Inl (NotADirectoryError p)
           | None \<Rightarrow> Inl (FileNotFoundError p)))"

section \<open>Output directory and the builder (data_processing.py)\<close>

definition resolve_processed_output_dir ::
  "world \<Rightarrow> path \<Rightarrow> path \<Rightarrow> (py_error + path) \<times> world" where
  "resolve_processed_output_dir w base_dir label =
     (let out_dir = base_dir @ label
      in if path_exists w out_dir then (Inl (FileExistsError out_dir), w)
         else (case mkdir_parents w out_dir False of
                 Inl e \<Rightarrow> (Inl e, w)
               | Inr w' \<Rightarrow> (Inr out_dir, w')))"

text \<open>
  The part of \<^verbatim>\<open>build_canonical_tables\<close> between reading the inputs and writing the
  outputs: the three column checks in their order, then the transforms of participants,
  units and traits.
\<close>

definition canonical_tables ::
  "frame \<Rightarrow> frame \<Rightarrow> frame \<Rightarrow> string \<Rightarrow> py_error + frame \<times> frame \<times> frame" where
  "canonical_tables participants units traits delimiter =
     (case ensure_columns participants [''match_id'', ''puuid'', ''placement'', ''level'']
             ''participants'' of
        Inl e \<Rightarrow> Inl e
      | Inr u1 \<Rightarrow>
     (case ensure_columns units [''match_id'', ''puuid'', ''unit_id'', ''star_level'', ''items'']
             ''units'' of
        Inl e \<Rightarrow> Inl e
      | Inr u2 \<Rightarrow>
     (case ensure_columns traits [''match_id'', ''puuid'', ''trait_id'', ''tier_current'']
             ''traits'' of
        Inl e \<Rightarrow> Inl e
      | Inr u3 \<Rightarrow>
     (case add_participant_flags participants 4 of
        Inl e \<Rightarrow> Inl e
      | Inr participants1 \<Rightarrow>
     (case normalize_delimited_column units ''items'' delimiter of
        Inl e \<Rightarrow> Inl e
      | Inr units1 \<Rightarrow>
     (case split_delimited_to_columns units1 ''items'' ''item'' delimiter (Some 3) of
        Inl e \<Rightarrow> Inl e
      | Inr units2 \<Rightarrow>
     (case drop_column units2 ''items'' of
        Inl e \<Rightarrow> Inl e
      | Inr units3 \<Rightarrow>
     (case active_traits traits of
        Inl e \<Rightarrow> Inl e
      | Inr traits1 \<Rightarrow>
          Inr (participants1,
               rename_columns units3 [(''unit_id'', ''unit_name''), (''star_level'', ''unit_tier'')],
               traits1)))))))))"

definition build_canonical_tables ::
  "world \<Rightarrow> path \<Rightarrow> path \<Rightarrow> path \<Rightarrow> path \<Rightarrow> string \<Rightarrow> path \<Rightarrow> (py_error + path) \<times> world" where
  "build_canonical_tables w participants_path units_path traits_path processed_base_dir
       delimiter label =
     (case mkdir_parents w processed_base_dir True of
        Inl e \<Rightarrow> (Inl e, w)
      | Inr w1 \<Rightarrow>
     (case resolve_processed_output_dir w1 processed_base_dir label of
        (Inl e, w2) \<Rightarrow> (Inl e, w2)
      | (Inr output_dir, w2) \<Rightarrow>
     (case read_csv w2 participants_path of
        (Inl e, w3) \<Rightarrow> (Inl e, w3)
      | (Inr participants, w3) \<Rightarrow>
     (case read_csv w3 units_path of
        (Inl e, w4) \<Rightarrow> (Inl e, w4)
      | (Inr units, w4) \<Rightarrow>
     (case read_csv w4 traits_path of
        (Inl e, w5) \<Rightarrow> (Inl e, w5)
      | (Inr traits, w5) \<Rightarrow>
     (case canonical_tables participants units traits delimiter of
        Inl e \<Rightarrow> (Inl e, w5)
      | Inr (participants1, units1, traits1) \<Rightarrow>
     (case to_csv w5 participants1 (output_dir @ [''participants.csv'']) of
        Inl e \<Rightarrow> (Inl e, w5)
      | Inr w6 \<Rightarrow>
     (case to_csv w6 units1 (output_dir @ [''units.csv'']) of
        Inl e \<Rightarrow> (Inl e, w6)
      | Inr w7 \<Rightarrow>
     (case to_csv w7 traits1 (output_dir @ [''traits.csv'']) of
        Inl e \<Rightarrow> (Inl e, w7)
      | Inr w8 \<Rightarrow> (Inr output_dir, w8))))))))))"

section \<open>Auxiliary notions of the proofs\<close>

text \<open>
  The tokens of one cell for a delimiter of one character \<open>d\<close>, as
  \<open>split_cell\<close> with \<open>drop_empty\<close> computes them, as strings.
\<close>

definition tokens :: "char \<Rightarrow> cell \<Rightarrow> string list" where
  "tokens d v =
     (if isna v \<or> v = Str [] then []
      else filter (\<lambda>p. p \<noteq> []) (map strip (split_from [d] [] (py_str v))))"

text \<open>
  The validator's claim in the spec's words: the match ids of a participants table, and
  the distinct player ids of one match (missing values are no ids).
\<close>

definition match_ids :: "frame \<Rightarrow> cell set" where
  "match_ids participants =
     set (filter (\<lambda>m. \<not> isna m) (map (\<lambda>r. cell_of r ''match_id'') (rows participants)))"

definition distinct_puuids :: "frame \<Rightarrow> cell \<Rightarrow> cell set" where
  "distinct_puuids participants m =
     set (filter (\<lambda>u. \<not> isna u)
            (map (\<lambda>r. cell_of r ''puuid'')
               (filter (\<lambda>r. cell_of r ''match_id'' = m) (rows participants))))"

text \<open>
  A file system is well formed when every entry lies in a directory. A table emitted by
  the trait filter keeps the rows whose \<open>tier_current\<close> is a positive number (a boolean
  counts as 0 or 1).
\<close>

definition wf_world :: "world \<Rightarrow> bool" where
  "wf_world w = (\<forall>p. p \<noteq> [] \<and> nodes w p \<noteq> None \<longrightarrow> node_at w (butlast p) = Some Dir)"

fun positive :: "cell \<Rightarrow> bool" where
  "positive (Num n) = (n > 0)"
| "positive (Bool b) = b"
| "positive _ = False"

section \<open>Sample inputs\<close>

text \<open>
  Raw tables in the shape of section 6 of the spec, stored under \<open>data/raw\<close>, and the same
  with \<open>level\<close> missing from the participants and \<open>items\<close> missing from the units.
\<close>

definition raw_participants :: frame where
  "raw_participants =
     \<lparr>columns = [''match_id'', ''puuid'', ''placement'', ''level''],
      rows = [[(''match_id'', Str ''m1''), (''puuid'', Str ''p1''), (''placement'', Num 1), (''level'', Num 9)],
              [(''match_id'', Str ''m1''), (''puuid'', Str ''p2''), (''placement'', Num 5), (''level'', Num 8)]]\<rparr>"

definition raw_units :: frame where
  "raw_units =
     \<lparr>columns = [''match_id'', ''puuid'', ''unit_id'', ''star_level'', ''items''],
      rows = [[(''match_id'', Str ''m1''), (''puuid'', Str ''p1''), (''unit_id'', Str ''Ahri''),
               (''star_level'', Num 2), (''items'', Str ''ItemA;ItemB'')]]\<rparr>"

definition raw_traits :: frame where
  "raw_traits =
     \<lparr>columns = [''match_id'', ''puuid'', ''trait_id'', ''tier_current''],
      rows = [[(''match_id'', Str ''m1''), (''puuid'', Str ''p1''), (''trait_id'', Str ''Bruiser''), (''tier_current'', Num 0)],
              [(''match_id'', Str ''m1''), (''puuid'', Str ''p1''), (''trait_id'', Str ''Mage''), (''tier_current'', Num 1)],
              [(''match_id'', Str ''m1''), (''puuid'', Str ''p2''), (''trait_id'', Str ''Sniper''), (''tier_current'', Num 2)]]\<rparr>"

definition raw_world :: world where
  "raw_world =
     \<lparr>nodes = [[''data''] \<mapsto> Dir,
               [''data'', ''raw''] \<mapsto> Dir,
               [''data'', ''raw'', ''participants_match.csv''] \<mapsto> File raw_participants,
               [''data'', ''raw'', ''units_match.csv''] \<mapsto> File raw_units,
               [''data'', ''raw'', ''traits_match.csv''] \<mapsto> File raw_traits],
      reads = []\<rparr>"

definition short_participants :: frame where
  "short_participants =
     \<lparr>columns = [''match_id'', ''puuid'', ''placement''],
      rows = [[(''match_id'', Str ''m1''), (''puuid'', Str ''p1''), (''placement'', Num 1)]]\<rparr>"

definition short_units :: frame where
  "short_units =
     \<lparr>columns = [''match_id'', ''puuid'', ''unit_id'', ''star_level''],
      rows = [[(''match_id'', Str ''m1''), (''puuid'', Str ''p1''), (''unit_id'', Str ''Ahri''),
               (''star_level'', Num 2)]]\<rparr>"

definition short_world :: world where
  "short_world =
     \<lparr>nodes = [[''data''] \<mapsto> Dir,
               [''data'', ''raw''] \<mapsto> Dir,
               [''data'', ''raw'', ''participants_match.csv''] \<mapsto> File short_participants,
               [''data'', ''raw'', ''units_match.csv''] \<mapsto> File short_units,
               [''data'', ''raw'', ''traits_match.csv''] \<mapsto> File raw_traits],
      reads = []\<rparr>"

section \<open>Strings: splitting, joining, stripping\<close>

lemma split_from_not_Nil: "split_from sep acc s \<noteq> []"
  by (induction sep acc s rule: split_from.induct) auto

lemma join_Cons: "ys \<noteq> [] \<Longrightarrow> join sep (x # ys) = x @ sep @ join sep ys"
  by (cases ys) auto

lemma join_split_from: "join [d] (split_from [d] acc s) = acc @ s"
  by (induction s arbitrary: acc) (auto simp: join_Cons split_from_not_Nil)

lemma split_from_no_delim:
  "d \<notin> set acc \<Longrightarrow> \<forall>p \<in> set (split_from [d] acc s). d \<notin> set p"
proof (induction s arbitrary: acc)
  case Nil
  then show ?case by simp
next
  case (Cons c cs)
  have a: "\<forall>p \<in> set (split_from [d] [] cs). d \<notin> set p" using Cons.IH[of "[]"] by simp
  have b: "c \<noteq> d \<Longrightarrow> \<forall>p \<in> set (split_from [d] (acc @ [c]) cs). d \<notin> set p"
    using Cons.IH[of "acc @ [c]"] Cons.prems by simp
  show ?case using a b Cons.prems by auto
qed

lemma split_from_chars:
  "\<forall>p \<in> set (split_from [d] acc s). set p \<subseteq> set acc \<union> set s"
proof (induction s arbitrary: acc)
  case Nil
  then show ?case by simp
next
  case (Cons c cs)
  have a: "\<forall>p \<in> set (split_from [d] [] cs). set p \<subseteq> set cs" using Cons[of "[]"] by simp
  have b: "\<forall>p \<in> set (split_from [d] (acc @ [c]) cs). set p \<subseteq> set acc \<union> set (c # cs)"
    using Cons[of "acc @ [c]"] by auto
  show ?case using a b by auto
qed

lemma split_from_skip:
  "d \<notin> set x \<Longrightarrow> split_from [d] acc (x @ s) = split_from [d] (acc @ x) s"
  by (induction x arbitrary: acc) auto

lemma split_from_join:
  "ts \<noteq> [] \<Longrightarrow> \<forall>p\<in>set ts. d \<notin> set p \<Longrightarrow>
     split_from [d] acc (join [d] ts) = (acc @ hd ts) # tl ts"
proof (induction ts arbitrary: acc)
  case Nil
  then show ?case by simp
next
  case (Cons x ts)
  show ?case
  proof (cases ts)
    case Nil
    then show ?thesis using Cons.prems split_from_skip[of d x acc "[]"] by simp
  next
    case (Cons y ys)
    have "split_from [d] [] (join [d] ts) = ([] @ hd ts) # tl ts"
      using Cons.IH[of "[]"] Cons.prems Cons by simp
    then show ?thesis
      using Cons Cons.prems split_from_skip[of d x acc "d # join [d] (y # ys)"] by simp
  qed
qed

lemma split_from_unique:
  assumes "ps \<noteq> []" and "\<forall>p\<in>set ps. d \<notin> set p"
  shows "split_from [d] [] (join [d] ps) = ps"
  using split_from_join[OF assms, of "[]"] assms(1) by simp

lemma last_dropWhile: "dropWhile P xs \<noteq> [] \<Longrightarrow> last (dropWhile P xs) = last xs"
  by (induction xs) (auto split: if_splits)

lemma strip_ends:
  "strip s \<noteq> [] \<Longrightarrow> \<not> isspace (hd (strip s)) \<and> \<not> isspace (last (strip s))"
  by (metis dropWhile_eq_self_iff hd_dropWhile last_dropWhile last_rev
    rev.simps(1) rev_rev_ident strip_def)

lemma strip_fixed:
  assumes "s = [] \<or> (\<not> isspace (hd s) \<and> \<not> isspace (last s))"
  shows "strip s = s"
proof (cases "s = []")
  case True
  then show ?thesis by (simp add: strip_def)
next
  case False
  then have h: "\<not> isspace (hd s)" and l: "\<not> isspace (last s)" using assms by auto
  have 1: "dropWhile isspace s = s" using h False by (cases s) auto
  have 2: "dropWhile isspace (rev s) = rev s" using l False by (cases "rev s") (auto simp: last_rev)
  show ?thesis by (simp add: strip_def 1 2)
qed

lemma strip_strip: "strip (strip s) = strip s"
  using strip_ends[of s] strip_fixed[of "strip s"] by blast

lemma set_strip: "set (strip s) \<subseteq> set s"
  unfolding strip_def by (metis set_dropWhileD set_rev subsetI)

lemma strip_all_space:
  assumes "\<forall>ch\<in>set s. isspace ch"
  shows "strip s = []"
proof -
  have d: "dropWhile isspace s = []" using assms by (simp add: dropWhile_eq_Nil_conv)
  show ?thesis unfolding strip_def d by simp
qed

section \<open>Tokens\<close>

lemma series_apply_total:
  "(\<And>x. f x = Inr (g x)) \<Longrightarrow> series_apply f xs = Inr (map g xs)"
  by (induction xs) auto

lemma split_cell_single:
  "split_cell [d] drop_empty v =
     Inr (if isna v \<or> v = Str [] then (if drop_empty then [] else [v])
          else map Str (if drop_empty
                        then filter (\<lambda>p. p \<noteq> []) (map strip (split_from [d] [] (py_str v)))
                        else map strip (split_from [d] [] (py_str v))))"
  by (simp add: split_cell_def py_split_def)

lemma split_cell_tokens: "split_cell [d] True v = Inr (map Str (tokens d v))"
  by (simp add: split_cell_single tokens_def)

lemma parse_tokens:
  "parse_delimited_column series [d] True = Inr (map (\<lambda>v. map Str (tokens d v)) series)"
  unfolding parse_delimited_column_def by (rule series_apply_total) (rule split_cell_tokens)

lemma tokens_props:
  assumes "t \<in> set (tokens d v)"
  shows "t \<noteq> []" and "d \<notin> set t" and "strip t = t"
proof -
  from assms obtain p where p: "p \<in> set (split_from [d] [] (py_str v))" and t: "t = strip p"
    and ne: "t \<noteq> []"
    by (auto simp: tokens_def split: if_splits)
  show "t \<noteq> []" by (rule ne)
  have "d \<notin> set p" using split_from_no_delim[of d "[]" "py_str v"] p by simp
  then show "d \<notin> set t" using set_strip[of p] t by auto
  show "strip t = t" using t strip_strip by simp
qed

lemma join_eq_Nil: "\<forall>t\<in>set ts. t \<noteq> [] \<Longrightarrow> join sep ts = [] \<longleftrightarrow> ts = []"
  by (induction sep ts rule: join.induct) auto

lemma tokens_join:
  assumes "\<forall>t\<in>set ts. t \<noteq> [] \<and> d \<notin> set t \<and> strip t = t"
  shows "tokens d (Str (join [d] ts)) = ts"
proof (cases "ts = []")
  case True
  then show ?thesis by (simp add: tokens_def)
next
  case False
  have ne: "join [d] ts \<noteq> []" using join_eq_Nil[of ts "[d]"] assms False by blast
  have sp: "split_from [d] [] (join [d] ts) = ts"
    using split_from_unique[of ts d] assms False by blast
  have m: "map strip ts = ts" using assms by (simp add: map_idI)
  have f: "filter (\<lambda>p. p \<noteq> []) ts = ts" using assms by (simp add: filter_id_conv)
  show ?thesis using ne by (simp add: tokens_def sp m f)
qed

lemma tokens_idem: "tokens d (Str (join [d] (tokens d v))) = tokens d v"
  by (rule tokens_join) (auto dest: tokens_props)

lemma tokens_blank:
  assumes "\<forall>ch\<in>set (py_str v). isspace ch \<or> ch = d"
  shows "tokens d v = []"
proof -
  have "strip p = []" if "p \<in> set (split_from [d] [] (py_str v))" for p
  proof -
    have "d \<notin> set p" using split_from_no_delim[of d "[]" "py_str v"] that by simp
    moreover have "set p \<subseteq> set (py_str v)" using split_from_chars[of d "[]" "py_str v"] that by simp
    ultimately have "\<forall>ch\<in>set p. isspace ch" using assms by auto
    then show ?thesis by (rule strip_all_space)
  qed
  then show ?thesis by (auto simp: tokens_def filter_empty_conv)
qed

section \<open>Parsing one cell\<close>

lemma parse_single: "parse_delimited_column [v] [d] drop_empty =
    Inr [if isna v \<or> v = Str [] then (if drop_empty then [] else [v])
          else map Str (if drop_empty
                        then filter (\<lambda>p. p \<noteq> []) (map strip (split_from [d] [] (py_str v)))
                        else map strip (split_from [d] [] (py_str v)))]"
  by (simp add: parse_delimited_column_def split_cell_single)

lemma series_apply_nth:
  "series_apply f xs = Inr ys \<Longrightarrow> length ys = length xs \<and> (\<forall>i<length xs. f (xs ! i) = Inr (ys ! i))"
proof (induction xs arbitrary: ys)
  case Nil
  then show ?case by simp
next
  case (Cons x xs)
  then show ?case
    by (auto split: sum.splits simp: nth_Cons split: nat.splits)
qed

text \<open>
  C6. For a delimiter of one character \<open>d\<close>, \<open>parse_delimited_column\<close> returns for a cell
  \<open>v\<close>: for a missing or empty cell the empty list when \<open>drop_empty\<close> holds and the list
  holding \<open>v\<close> itself otherwise; for any other cell the pieces of its text between the
  occurrences of \<open>d\<close> (the one non-empty list of strings without \<open>d\<close> that joined by \<open>d\<close> give
  the text), each stripped of surrounding whitespace, and without the empty ones exactly
  when \<open>drop_empty\<close> holds; a cell made of whitespace and delimiters only gives no token
  when \<open>drop_empty\<close> holds. A column is parsed cell by cell.
\<close>

theorem parse_delimited_column_cell:
  "\<exists>lst. parse_delimited_column [v] [d] drop_empty = Inr [lst] \<and>
     ((isna v \<or> v = Str []) \<longrightarrow> lst = (if drop_empty then [] else [v])) \<and>
     (\<not> (isna v \<or> v = Str []) \<longrightarrow>
        (\<exists>pieces. pieces \<noteq> [] \<and> join [d] pieces = py_str v \<and> (\<forall>p\<in>set pieces. d \<notin> set p) \<and>
           (\<forall>qs. qs \<noteq> [] \<and> join [d] qs = py_str v \<and> (\<forall>q\<in>set qs. d \<notin> set q) \<longrightarrow> qs = pieces) \<and>
           lst = map Str (if drop_empty then filter (\<lambda>p. p \<noteq> []) (map strip pieces)
                          else map strip pieces))) \<and>
     (drop_empty \<and> (\<forall>ch\<in>set (py_str v). isspace ch \<or> ch = d) \<longrightarrow> lst = []) \<and>
     (\<forall>series. \<exists>out. parse_delimited_column series [d] drop_empty = Inr out \<and>
        length out = length series \<and>
        (\<forall>i<length series. parse_delimited_column [series ! i] [d] drop_empty = Inr [out ! i]))"
proof -
  let ?pieces = "split_from [d] [] (py_str v)"
  let ?lst = "if isna v \<or> v = Str [] then (if drop_empty then [] else [v])
          else map Str (if drop_empty then filter (\<lambda>p. p \<noteq> []) (map strip ?pieces)
                        else map strip ?pieces)"
  have 1: "parse_delimited_column [v] [d] drop_empty = Inr [?lst]" by (rule parse_single)
  have 2: "(isna v \<or> v = Str []) \<longrightarrow> ?lst = (if drop_empty then [] else [v])" by simp
  have u: "qs = ?pieces" if "qs \<noteq> [] \<and> join [d] qs = py_str v \<and> (\<forall>q\<in>set qs. d \<notin> set q)" for qs
    using split_from_unique[of qs d] that by auto
  have 3: "\<not> (isna v \<or> v = Str []) \<longrightarrow>
        (\<exists>pieces. pieces \<noteq> [] \<and> join [d] pieces = py_str v \<and> (\<forall>p\<in>set pieces. d \<notin> set p) \<and>
           (\<forall>qs. qs \<noteq> [] \<and> join [d] qs = py_str v \<and> (\<forall>q\<in>set qs. d \<notin> set q) \<longrightarrow> qs = pieces) \<and>
           ?lst = map Str (if drop_empty then filter (\<lambda>p. p \<noteq> []) (map strip pieces)
                          else map strip pieces))"
  proof
    assume n: "\<not> (isna v \<or> v = Str [])"
    have a: "?pieces \<noteq> []" by (rule split_from_not_Nil)
    have b: "join [d] ?pieces = py_str v" using join_split_from[of d "[]"] by simp
    have c: "\<forall>p\<in>set ?pieces. d \<notin> set p" using split_from_no_delim[of d "[]"] by simp
    have e: "?lst = map Str (if drop_empty then filter (\<lambda>p. p \<noteq> []) (map strip ?pieces)
                          else map strip ?pieces)" using n by simp
    show "\<exists>pieces. pieces \<noteq> [] \<and> join [d] pieces = py_str v \<and> (\<forall>p\<in>set pieces. d \<notin> set p) \<and>
           (\<forall>qs. qs \<noteq> [] \<and> join [d] qs = py_str v \<and> (\<forall>q\<in>set qs. d \<notin> set q) \<longrightarrow> qs = pieces) \<and>
           ?lst = map Str (if drop_empty then filter (\<lambda>p. p \<noteq> []) (map strip pieces)
                          else map strip pieces)"
      using a b c e u by blast
  qed
  have 4: "drop_empty \<and> (\<forall>ch\<in>set (py_str v). isspace ch \<or> ch = d) \<longrightarrow> ?lst = []"
  proof
    assume h: "drop_empty \<and> (\<forall>ch\<in>set (py_str v). isspace ch \<or> ch = d)"
    then have "tokens d v = []" using tokens_blank by blast
    then show "?lst = []" using h by (auto simp: tokens_def)
  qed
  have 5: "\<exists>out. parse_delimited_column series [d] drop_empty = Inr out \<and>
        length out = length series \<and>
        (\<forall>i<length series. parse_delimited_column [series ! i] [d] drop_empty = Inr [out ! i])" for series
  proof -
    define g where "g = (\<lambda>x. if isna x \<or> x = Str [] then (if drop_empty then [] else [x])
          else map Str (if drop_empty
                        then filter (\<lambda>p. p \<noteq> []) (map strip (split_from [d] [] (py_str x)))
                        else map strip (split_from [d] [] (py_str x))))"
    have g: "\<And>x. split_cell [d] drop_empty x = Inr (g x)"
      unfolding g_def by (rule split_cell_single)
    have "parse_delimited_column series [d] drop_empty = Inr (map g series)"
      unfolding parse_delimited_column_def using g by (rule series_apply_total)
    moreover have "\<forall>i<length series. parse_delimited_column [series ! i] [d] drop_empty = Inr [map g series ! i]"
      by (simp add: parse_delimited_column_def g)
    ultimately show ?thesis by simp
  qed
  show ?thesis using 1 2 3 4 5 by blast
qed

theorem parse_delimited_column_cell_witness:
  "parse_delimited_column [Str '' ; ;''] '';'' True = Inr [[]] \<and>
   parse_delimited_column [Str '' a;; b''] '';'' True = Inr [[Str ''a'', Str ''b'']] \<and>
   parse_delimited_column [Str '' a;; b''] '';'' False = Inr [[Str ''a'', Str [], Str ''b'']] \<and>
   parse_delimited_column [NA] '';'' False = Inr [[NA]]"
proof -
  have b: "\<forall>ch\<in>set (py_str (Str '' ; ;'')). isspace ch \<or> ch = CHR '';''"
    by (simp add: isspace_def)
  have 1: "parse_delimited_column [Str '' ; ;''] '';'' True = Inr [[]]"
    using parse_delimited_column_cell[of "Str '' ; ;''" "CHR '';''" True] b by auto
  have j: "join '';'' ['' a'', [], '' b''] = py_str (Str '' a;; b'')" by simp
  have 2: "parse_delimited_column [Str '' a;; b''] '';'' True = Inr [[Str ''a'', Str ''b'']]"
  proof -
    from parse_delimited_column_cell[of "Str '' a;; b''" "CHR '';''" True]
    obtain lst pieces where p: "parse_delimited_column [Str '' a;; b''] '';'' True = Inr [lst]"
      and u: "\<forall>qs. qs \<noteq> [] \<and> join '';'' qs = py_str (Str '' a;; b'') \<and>
                (\<forall>q\<in>set qs. CHR '';'' \<notin> set q) \<longrightarrow> qs = pieces"
      and l: "lst = map Str (filter (\<lambda>p. p \<noteq> []) (map strip pieces))"
      by auto
    have "['' a'', [], '' b''] = pieces" using u j by simp
    then show ?thesis using p l by (auto simp: strip_def isspace_def)
  qed
  have 3: "parse_delimited_column [Str '' a;; b''] '';'' False = Inr [[Str ''a'', Str [], Str ''b'']]"
  proof -
    from parse_delimited_column_cell[of "Str '' a;; b''" "CHR '';''" False]
    obtain lst pieces where p: "parse_delimited_column [Str '' a;; b''] '';'' False = Inr [lst]"
      and u: "\<forall>qs. qs \<noteq> [] \<and> join '';'' qs = py_str (Str '' a;; b'') \<and>
                (\<forall>q\<in>set qs. CHR '';'' \<notin> set q) \<longrightarrow> qs = pieces"
      and l: "lst = map Str (map strip pieces)"
      by auto
    have "['' a'', [], '' b''] = pieces" using u j by simp
    then show ?thesis using p l by (auto simp: strip_def isspace_def)
  qed
  have 4: "parse_delimited_column [NA] '';'' False = Inr [[NA]]"
    using parse_delimited_column_cell[of NA "CHR '';''" False] by auto
  show ?thesis using 1 2 3 4 by simp
qed

section \<open>Columns of a table\<close>

lemma cell_of_update: "cell_of (AList.update c v r) c' = (if c' = c then v else cell_of r c')"
  by (simp add: cell_of_def update_conv')

lemma zip_map_self: "map (\<lambda>(r, v). g r v) (zip xs (map f xs)) = map (\<lambda>r. g r (f r)) xs"
  by (induction xs) auto

lemma set_column_map:
  "set_column df c (map f (rows df)) =
     \<lparr>columns = (if c \<in> set (columns df) then columns df else columns df @ [c]),
      rows = map (\<lambda>r. AList.update c (f r) r) (rows df)\<rparr>"
  unfolding set_column_def using zip_map_self[of "\<lambda>r v. AList.update c v r" "rows df" f] by simp

lemma series_apply_map: "series_apply f (map h xs) = series_apply (\<lambda>x. f (h x)) xs"
  by (induction xs) (simp_all split: sum.splits)

lemma py_join_strs: "py_join sep (map Str ts) = Inr (join sep ts)"
proof -
  have "list_all is_str (map Str ts)" by (induction ts) auto
  moreover have "map py_str (map Str ts) = ts" by (induction ts) auto
  ultimately show ?thesis by (simp add: py_join_def)
qed

section \<open>Normalising a delimited column\<close>

lemma set_column_twice: "set_column (set_column df c vs) c vs = set_column df c vs"
proof -
  have "map (\<lambda>(r, v). AList.update c v r) (zip (map (\<lambda>(r, v). AList.update c v r) (zip xs vs)) vs)
        = map (\<lambda>(r, v). AList.update c v r) (zip xs vs)" for xs :: "row list"
  proof (induction xs arbitrary: vs)
    case Nil
    then show ?case by simp
  next
    case (Cons x xs)
    then show ?case by (cases vs) auto
  qed
  then show ?thesis by (simp add: set_column_def)
qed

lemma normalize_single:
  "normalize_delimited_column df column [d] =
     Inr (if column \<in> set (columns df)
          then set_column df column
                 (map (\<lambda>r. Str (join [d] (tokens d (cell_of r column)))) (rows df))
          else df)"
proof (cases "column \<in> set (columns df)")
  case False
  then show ?thesis by (simp add: normalize_delimited_column_def)
next
  case True
  have g: "get_column df column = Inr (map (\<lambda>r. cell_of r column) (rows df))"
    using True by (simp add: get_column_def)
  have j: "series_apply (\<lambda>parts. case py_join [d] parts of Inl e \<Rightarrow> Inl e | Inr s \<Rightarrow> Inr (Str s))
             (map (\<lambda>v. map Str (tokens d v)) series)
           = Inr (map (\<lambda>v. Str (join [d] (tokens d v))) series)" for series
    unfolding series_apply_map by (rule series_apply_total) (simp add: py_join_strs)
  have "normalize_delimited_column df column [d] =
          Inr (set_column df column
                 (map (\<lambda>v. Str (join [d] (tokens d v))) (map (\<lambda>r. cell_of r column) (rows df))))"
    unfolding normalize_delimited_column_def g parse_tokens j sum.case using True by simp
  then show ?thesis using True by (simp add: comp_def)
qed

text \<open>
  C2. For a delimiter of one character, normalising a column succeeds on every table
  (missing, string, integer and boolean cells), and normalising the result again gives
  the same table: every cell keeps the value the first pass gave it.
\<close>

theorem normalize_delimited_column_idempotent:
  "\<exists>df1. normalize_delimited_column df column [d] = Inr df1 \<and>
          normalize_delimited_column df1 column [d] = Inr df1"
proof (cases "column \<in> set (columns df)")
  case False
  then show ?thesis by (simp add: normalize_single)
next
  case True
  let ?F = "\<lambda>r. Str (join [d] (tokens d (cell_of r column)))"
  let ?df1 = "set_column df column (map ?F (rows df))"
  have 1: "normalize_delimited_column df column [d] = Inr ?df1"
    using True by (simp add: normalize_single)
  have c1: "column \<in> set (columns ?df1)" using True by (simp add: set_column_map)
  have r1: "rows ?df1 = map (\<lambda>r. AList.update column (?F r) r) (rows df)"
    by (simp add: set_column_map)
  have fx: "?F (AList.update column (?F r) r) = ?F r" for r
    by (simp add: cell_of_update tokens_idem)
  have m: "map ?F (rows ?df1) = map ?F (rows df)"
    unfolding r1 by (simp add: fx comp_def)
  have "set_column ?df1 column (map ?F (rows ?df1)) = ?df1"
    unfolding m by (rule set_column_twice)
  then have 2: "normalize_delimited_column ?df1 column [d] = Inr ?df1"
    using c1 by (simp add: normalize_single[of ?df1])
  show ?thesis using 1 2 by blast
qed

theorem normalize_delimited_column_idempotent_witness:
  "normalize_delimited_column
     \<lparr>columns = [''unit_id'', ''items''],
      rows = [[(''unit_id'', Str ''Ahri''), (''items'', Str '' A;;B ; '')],
              [(''unit_id'', Str ''Garen''), (''items'', NA)]]\<rparr> ''items'' '';''
   = Inr \<lparr>columns = [''unit_id'', ''items''],
          rows = [[(''unit_id'', Str ''Ahri''), (''items'', Str ''A;B'')],
                  [(''unit_id'', Str ''Garen''), (''items'', Str [])]]\<rparr> \<and>
   normalize_delimited_column
     \<lparr>columns = [''unit_id'', ''items''],
      rows = [[(''unit_id'', Str ''Ahri''), (''items'', Str ''A;B'')],
              [(''unit_id'', Str ''Garen''), (''items'', Str [])]]\<rparr> ''items'' '';''
   = Inr \<lparr>columns = [''unit_id'', ''items''],
          rows = [[(''unit_id'', Str ''Ahri''), (''items'', Str ''A;B'')],
                  [(''unit_id'', Str ''Garen''), (''items'', Str [])]]\<rparr>"
proof -
  let ?df = "\<lparr>columns = [''unit_id'', ''items''],
      rows = [[(''unit_id'', Str ''Ahri''), (''items'', Str '' A;;B ; '')],
              [(''unit_id'', Str ''Garen''), (''items'', NA)]]\<rparr>"
  let ?out = "\<lparr>columns = [''unit_id'', ''items''],
          rows = [[(''unit_id'', Str ''Ahri''), (''items'', Str ''A;B'')],
                  [(''unit_id'', Str ''Garen''), (''items'', Str [])]]\<rparr>"
  have e: "normalize_delimited_column ?df ''items'' '';'' = Inr ?out"
    by (simp add: normalize_delimited_column_def get_column_def parse_delimited_column_def
        split_cell_def py_split_def strip_def isspace_def py_join_def set_column_def cell_of_def)
  from normalize_delimited_column_idempotent[of ?df "''items''" "CHR '';''"]
  obtain df1 where a: "normalize_delimited_column ?df ''items'' '';'' = Inr df1"
    and b: "normalize_delimited_column df1 ''items'' '';'' = Inr df1" by blast
  from a e have "df1 = ?out" by simp
  with b e show ?thesis by simp
qed

section \<open>Slot names\<close>

lemma digit_char_inj: "n < 10 \<Longrightarrow> m < 10 \<Longrightarrow> digit_char n = digit_char m \<Longrightarrow> n = m"
proof -
  assume n: "n < 10" and m: "m < 10" and e: "digit_char n = digit_char m"
  have d: "distinct ''0123456789''" by simp
  have l: "length ''0123456789'' = 10" by simp
  show "n = m" using nth_eq_iff_index_eq[OF d, of n m] n m e l unfolding digit_char_def by simp
qed

lemma str_nat_not_Nil: "str_nat n \<noteq> []"
  by (subst str_nat.simps) simp

lemma str_nat_inj: "str_nat n = str_nat m \<Longrightarrow> n = m"
proof (induction n arbitrary: m rule: less_induct)
  case (less n)
  show ?case
  proof (cases "n < 10")
    case True
    show ?thesis
    proof (cases "m < 10")
      case mt: True
      then show ?thesis using True less.prems digit_char_inj[of n m]
        by (simp add: str_nat.simps[of n] str_nat.simps[of m])
    next
      case False
      then show ?thesis using True less.prems str_nat_not_Nil[of "m div 10"]
        by (simp add: str_nat.simps[of n] str_nat.simps[of m])
    qed
  next
    case False
    show ?thesis
    proof (cases "m < 10")
      case True
      then show ?thesis using False less.prems str_nat_not_Nil[of "n div 10"]
        by (simp add: str_nat.simps[of n] str_nat.simps[of m])
    next
      case mf: False
      have e: "str_nat (n div 10) = str_nat (m div 10)" and dg: "digit_char (n mod 10) = digit_char (m mod 10)"
        using False mf less.prems by (simp_all add: str_nat.simps[of n] str_nat.simps[of m])
      have "n div 10 = m div 10" using less.IH[of "n div 10" "m div 10"] e False by simp
      moreover have "n mod 10 = m mod 10" using digit_char_inj[of "n mod 10" "m mod 10"] dg by simp
      ultimately show ?thesis by (metis div_mult_mod_eq)
    qed
  qed
qed

lemma slot_name_inj: "slot_name prefix i = slot_name prefix j \<Longrightarrow> i = j"
  by (simp add: slot_name_def str_nat_inj)

lemma distinct_slot_names: "distinct (map (slot_name prefix) [0..<n])"
  by (simp add: distinct_map inj_on_def slot_name_inj)

section \<open>Assigning several columns\<close>

lemma fold_set_column_columns:
  "distinct (map nm js) \<Longrightarrow>
   columns (fold (\<lambda>i out. set_column out (nm i) (vs i)) js df)
     = columns df @ filter (\<lambda>n. n \<notin> set (columns df)) (map nm js)"
proof (induction js arbitrary: df)
  case Nil
  then show ?case by simp
next
  case (Cons j js)
  let ?df1 = "set_column df (nm j) (vs j)"
  have d: "distinct (map nm js)" and n: "nm j \<notin> set (map nm js)" using Cons.prems by auto
  have f: "filter (\<lambda>n. n \<notin> set (columns ?df1)) (map nm js)
           = filter (\<lambda>n. n \<notin> set (columns df)) (map nm js)"
  proof (rule filter_cong)
    fix x assume "x \<in> set (map nm js)"
    then have "x \<noteq> nm j" using n by blast
    then show "(x \<notin> set (columns ?df1)) = (x \<notin> set (columns df))"
      by (simp add: set_column_def)
  qed simp
  show ?case using Cons.IH[OF d, of ?df1] f by (auto simp: set_column_def)
qed

lemma zip_map_fst:
  "zip (map (\<lambda>(r, l). U r l) (zip rs ls)) ls = map (\<lambda>(r, l). (U r l, l)) (zip rs ls)"
proof (induction rs arbitrary: ls)
  case Nil
  then show ?case by simp
next
  case (Cons r rs)
  then show ?case by (cases ls) auto
qed

lemma fold_set_column_rows:
  "length ls = length (rows df) \<Longrightarrow>
   rows (fold (\<lambda>i out. set_column out (nm i) (map (g i) ls)) js df)
     = map (\<lambda>(r, lst). fold (\<lambda>i r. AList.update (nm i) (g i lst) r) js r) (zip (rows df) ls)"
proof (induction js arbitrary: df)
  case Nil
  then show ?case by (simp add: split_def map_fst_zip)
next
  case (Cons j js)
  let ?df1 = "set_column df (nm j) (map (g j) ls)"
  have r1: "rows ?df1 = map (\<lambda>(r, l). AList.update (nm j) (g j l) r) (zip (rows df) ls)"
    by (simp add: set_column_def zip_map2 split_def)
  have l1: "length ls = length (rows ?df1)" using Cons.prems by (simp add: r1)
  show ?case
    unfolding fold_Cons comp_def Cons.IH[OF l1] r1 zip_map_fst
    by (simp add: split_def)
qed

lemma cell_fold_other:
  "c \<notin> nm ` set js \<Longrightarrow>
   cell_of (fold (\<lambda>i r. AList.update (nm i) (g i) r) js r) c = cell_of r c"
  by (induction js arbitrary: r) (auto simp: cell_of_update)

lemma cell_fold_hit:
  "distinct (map nm js) \<Longrightarrow> i \<in> set js \<Longrightarrow>
   cell_of (fold (\<lambda>i r. AList.update (nm i) (g i) r) js r) (nm i) = g i"
proof (induction js arbitrary: r)
  case Nil
  then show ?case by simp
next
  case (Cons j js)
  show ?case
  proof (cases "i = j")
    case True
    have "nm j \<notin> nm ` set js" using Cons.prems(1) by simp
    then show ?thesis using True cell_fold_other[of "nm j" nm js g "AList.update (nm j) (g j) r"]
      by (simp add: cell_of_update)
  next
    case False
    then show ?thesis using Cons by simp
  qed
qed

section \<open>Fixed-width split of a delimited column\<close>

lemma parse_column_tokens:
  "parse_delimited_column (map (\<lambda>r. cell_of r column) rs) [d] True
     = Inr (map (\<lambda>r. map Str (tokens d (cell_of r column))) rs)"
  by (simp add: parse_tokens comp_def)

lemma split_delimited_single:
  assumes "column \<in> set (columns df)"
  shows "split_delimited_to_columns df column prefix [d] max_parts =
     Inr (fold (\<lambda>i out. set_column out (slot_name prefix i)
                  (map (slot i) (map (\<lambda>r. map Str (tokens d (cell_of r column))) (rows df))))
            [0..<nat (case max_parts of
                        Some m \<Rightarrow> m
                      | None \<Rightarrow> int (inferred_max
                                 (map (\<lambda>r. map Str (tokens d (cell_of r column))) (rows df))))]
            df)"
proof -
  have g: "get_column df column = Inr (map (\<lambda>r. cell_of r column) (rows df))"
    using assms by (simp add: get_column_def)
  show ?thesis
    unfolding split_delimited_to_columns_def g parse_column_tokens sum.case Let_def
    using assms by simp
qed

lemma split_delimited_props:
  assumes c: "column \<in> set (columns df)"
    and ls: "list_series = map (\<lambda>r. map Str (tokens d (cell_of r column))) (rows df)"
    and w: "width = nat (case max_parts of Some m \<Rightarrow> m | None \<Rightarrow> int (inferred_max list_series))"
    and out: "out = fold (\<lambda>i out. set_column out (slot_name prefix i) (map (slot i) list_series))
                      [0..<width] df"
  shows "split_delimited_to_columns df column prefix [d] max_parts = Inr out"
    and "columns out = columns df @ filter (\<lambda>n. n \<notin> set (columns df)) (map (slot_name prefix) [0..<width])"
    and "rows out = map (\<lambda>(r, lst). fold (\<lambda>i r. AList.update (slot_name prefix i) (slot i lst) r) [0..<width] r)
                      (zip (rows df) list_series)"
    and "length (rows out) = length (rows df)"
    and "i < width \<Longrightarrow> get_column out (slot_name prefix i) = Inr (map (slot i) list_series)"
    and "k < length (rows df) \<Longrightarrow> c' \<notin> set (map (slot_name prefix) [0..<width]) \<Longrightarrow>
           cell_of (rows out ! k) c' = cell_of (rows df ! k) c'"
proof -
  show 1: "split_delimited_to_columns df column prefix [d] max_parts = Inr out"
    unfolding out w ls by (rule split_delimited_single[OF c])
  have len: "length list_series = length (rows df)" by (simp add: ls)
  show 2: "columns out = columns df @ filter (\<lambda>n. n \<notin> set (columns df)) (map (slot_name prefix) [0..<width])"
    unfolding out by (rule fold_set_column_columns) (rule distinct_slot_names)
  show 3: "rows out = map (\<lambda>(r, lst). fold (\<lambda>i r. AList.update (slot_name prefix i) (slot i lst) r) [0..<width] r)
                      (zip (rows df) list_series)"
    unfolding out by (rule fold_set_column_rows) (rule len)
  show 4: "length (rows out) = length (rows df)" by (simp add: 3 len)
  show "get_column out (slot_name prefix i) = Inr (map (slot i) list_series)" if i: "i < width"
  proof -
    have m: "slot_name prefix i \<in> set (columns out)" using i by (auto simp: 2)
    have "map (\<lambda>r. cell_of r (slot_name prefix i)) (rows out) = map (slot i) list_series"
    proof (rule nth_equalityI)
      show "length (map (\<lambda>r. cell_of r (slot_name prefix i)) (rows out)) = length (map (slot i) list_series)"
        by (simp add: 4 len)
    next
      fix k assume "k < length (map (\<lambda>r. cell_of r (slot_name prefix i)) (rows out))"
      then have k: "k < length (rows df)" by (simp add: 4)
      have "cell_of (rows out ! k) (slot_name prefix i) = slot i (list_series ! k)"
        unfolding 3 using k len i
        by (simp add: cell_fold_hit[of "slot_name prefix" "[0..<width]" i] distinct_slot_names)
      then show "map (\<lambda>r. cell_of r (slot_name prefix i)) (rows out) ! k = map (slot i) list_series ! k"
        using k len 4 by simp
    qed
    then show ?thesis using m by (simp add: get_column_def)
  qed
  show "cell_of (rows out ! k) c' = cell_of (rows df ! k) c'"
    if k: "k < length (rows df)" and n: "c' \<notin> set (map (slot_name prefix) [0..<width])"
    unfolding 3 using k len n
    by (simp add: cell_fold_other[of c' "slot_name prefix" "[0..<width]"])
qed

text \<open>
  C5. When the column is in the table and the delimiter is one character,
  \<open>split_delimited_to_columns\<close> succeeds and uses one width for the whole column:
  \<open>max_parts\<close> when given (no column for a negative number, as \<^verbatim>\<open>range\<close> is empty
  then), otherwise the largest number of tokens of a row (0 for a table without rows).
  The names \<open>prefix_0\<close>, ..., \<open>prefix_(width-1)\<close> are distinct; those that the table
  does not have yet are added after its columns, in order, and no row is added or
  removed. The column \<open>prefix_i\<close> holds for each row the \<open>i\<close>-th token of the row's
  parsed cell, and a missing value when the row has no such token. Cells under other
  names are unchanged.
\<close>

theorem split_delimited_to_columns_fixed_width:
  assumes "column \<in> set (columns df)"
  shows "\<exists>list_series out width.
     parse_delimited_column (map (\<lambda>r. cell_of r column) (rows df)) [d] True = Inr list_series \<and>
     split_delimited_to_columns df column prefix [d] max_parts = Inr out \<and>
     width = (case max_parts of
                Some m \<Rightarrow> nat m
              | None \<Rightarrow> if list_series = [] then 0 else Max (set (map length list_series))) \<and>
     columns out = columns df @ filter (\<lambda>n. n \<notin> set (columns df))
                                   (map (slot_name prefix) [0..<width]) \<and>
     distinct (map (slot_name prefix) [0..<width]) \<and>
     length (rows out) = length (rows df) \<and>
     (\<forall>i<width. get_column out (slot_name prefix i)
                  = Inr (map (\<lambda>lst. if i < length lst then lst ! i else NA) list_series)) \<and>
     (\<forall>k<length (rows df). \<forall>c. c \<notin> set (map (slot_name prefix) [0..<width]) \<longrightarrow>
          cell_of (rows out ! k) c = cell_of (rows df ! k) c)"
proof -
  define list_series where "list_series = map (\<lambda>r. map Str (tokens d (cell_of r column))) (rows df)"
  define width where
    "width = nat (case max_parts of Some m \<Rightarrow> m | None \<Rightarrow> int (inferred_max list_series))"
  define out where
    "out = fold (\<lambda>i out. set_column out (slot_name prefix i) (map (slot i) list_series))
             [0..<width] df"
  note p = split_delimited_props[OF assms list_series_def width_def out_def]
  have 1: "parse_delimited_column (map (\<lambda>r. cell_of r column) (rows df)) [d] True = Inr list_series"
    unfolding list_series_def by (rule parse_column_tokens)
  have 2: "width = (case max_parts of
                Some m \<Rightarrow> nat m
              | None \<Rightarrow> if list_series = [] then 0 else Max (set (map length list_series)))"
    by (simp add: width_def inferred_max_def split: option.splits)
  have 3: "\<forall>i<width. get_column out (slot_name prefix i)
                  = Inr (map (\<lambda>lst. if i < length lst then lst ! i else NA) list_series)"
    using p(5) by (simp add: slot_def[abs_def])
  have 4: "\<forall>k<length (rows df). \<forall>c. c \<notin> set (map (slot_name prefix) [0..<width]) \<longrightarrow>
          cell_of (rows out ! k) c = cell_of (rows df ! k) c"
    using p(6) by blast
  show ?thesis using 1 2 3 4 p(1) p(2) p(4) distinct_slot_names[of prefix width] by blast
qed

theorem split_delimited_to_columns_fixed_width_witness:
  "''items'' \<in> set (columns \<lparr>columns = [''unit_id'', ''items''],
                              rows = [[(''unit_id'', Str ''Ahri''), (''items'', Str ''ItemA;ItemB'')],
                                      [(''unit_id'', Str ''Lux''), (''items'', Str ''A; B;;C;D'')]]\<rparr>) \<and>
   (\<exists>out. split_delimited_to_columns
            \<lparr>columns = [''unit_id'', ''items''],
             rows = [[(''unit_id'', Str ''Ahri''), (''items'', Str ''ItemA;ItemB'')],
                     [(''unit_id'', Str ''Lux''), (''items'', Str ''A; B;;C;D'')]]\<rparr>
            ''items'' ''item'' '';'' (Some 3) = Inr out \<and>
          columns out = [''unit_id'', ''items'', ''item_0'', ''item_1'', ''item_2''] \<and>
          get_column out ''item_0'' = Inr [Str ''ItemA'', Str ''A''] \<and>
          get_column out ''item_1'' = Inr [Str ''ItemB'', Str ''B''] \<and>
          get_column out ''item_2'' = Inr [NA, Str ''C''])"
proof -
  let ?df = "\<lparr>columns = [''unit_id'', ''items''],
              rows = [[(''unit_id'', Str ''Ahri''), (''items'', Str ''ItemA;ItemB'')],
                      [(''unit_id'', Str ''Lux''), (''items'', Str ''A; B;;C;D'')]]\<rparr>"
  have c: "''items'' \<in> set (columns ?df)" by simp
  have e: "parse_delimited_column (map (\<lambda>r. cell_of r ''items'') (rows ?df)) '';'' True
           = Inr [[Str ''ItemA'', Str ''ItemB''], [Str ''A'', Str ''B'', Str ''C'', Str ''D'']]"
    by (simp add: parse_delimited_column_def split_cell_def py_split_def strip_def isspace_def
        cell_of_def)
  have n: "[0..<3] = [0, 1, 2]" by (simp add: upt_rec)
  have n0: "slot_name ''item'' 0 = ''item_0''" and n1: "slot_name ''item'' (Suc 0) = ''item_1''"
    and n2: "slot_name ''item'' 2 = ''item_2''"
    by (simp_all add: slot_name_def str_nat.simps digit_char_def)
  from split_delimited_to_columns_fixed_width[OF c, of "CHR '';''" "''item''" "Some 3"]
  obtain list_series out width where
    p: "parse_delimited_column (map (\<lambda>r. cell_of r ''items'') (rows ?df)) '';'' True = Inr list_series"
    and s: "split_delimited_to_columns ?df ''items'' ''item'' '';'' (Some 3) = Inr out"
    and w: "width = (case Some 3 of Some m \<Rightarrow> nat m
              | None \<Rightarrow> if list_series = [] then 0 else Max (set (map length list_series)))"
    and cs: "columns out = columns ?df @ filter (\<lambda>n. n \<notin> set (columns ?df))
                                   (map (slot_name ''item'') [0..<width])"
    and g: "\<forall>i<width. get_column out (slot_name ''item'' i)
                  = Inr (map (\<lambda>lst. if i < length lst then lst ! i else NA) list_series)"
    by blast
  have l: "list_series = [[Str ''ItemA'', Str ''ItemB''], [Str ''A'', Str ''B'', Str ''C'', Str ''D'']]"
    using p e by simp
  have w3: "width = 3" using w by simp
  have "columns out = [''unit_id'', ''items'', ''item_0'', ''item_1'', ''item_2'']"
    using cs by (simp add: w3 n n0 n1 n2)
  moreover have "get_column out ''item_0'' = Inr [Str ''ItemA'', Str ''A'']"
    using g[rule_format, of 0] by (simp add: w3 n0 l)
  moreover have "get_column out ''item_1'' = Inr [Str ''ItemB'', Str ''B'']"
    using g[rule_format, of 1] by (simp add: w3 n1 l)
  moreover have "get_column out ''item_2'' = Inr [NA, Str ''C'']"
    using g[rule_format, of 2] by (simp add: w3 n2 l)
  ultimately show ?thesis using c s by blast
qed

section \<open>Joining the slots of a row again\<close>

lemma slots_of_short_list:
  "length ts \<le> w \<Longrightarrow> map (\<lambda>i. slot i ts) [0..<w] = ts @ replicate (w - length ts) NA"
  by (rule nth_equalityI) (auto simp: slot_def nth_append)

lemma filter_not_na_strs: "filter (\<lambda>v. \<not> isna v) (map Str ts @ replicate n NA) = map Str ts"
  by (induction ts) auto

text \<open>
  C8. Take a table with the column, a delimiter of one character \<open>d\<close> and a row \<open>k\<close>;
  let \<open>ts\<close> be the parsed tokens of the row's cell (none of them contains \<open>d\<close>). After
  \<open>split_delimited_to_columns\<close>, when \<open>ts\<close> has at most \<open>width\<close> tokens, the values of
  the row under \<open>prefix_0\<close>, ..., \<open>prefix_(width-1)\<close> that are not missing are exactly
  \<open>ts\<close>, in order; joined with \<open>d\<close> they give a string that parses to \<open>ts\<close> again.
\<close>

theorem split_then_join_reproduces_tokens:
  assumes "column \<in> set (columns df)" and "k < length (rows df)"
  shows "\<exists>list_series out width ts.
     parse_delimited_column (map (\<lambda>r. cell_of r column) (rows df)) [d] True = Inr list_series \<and>
     split_delimited_to_columns df column prefix [d] max_parts = Inr out \<and>
     width = (case max_parts of
                Some m \<Rightarrow> nat m
              | None \<Rightarrow> if list_series = [] then 0 else Max (set (map length list_series))) \<and>
     ts = list_series ! k \<and>
     parse_delimited_column [cell_of (rows df ! k) column] [d] True = Inr [ts] \<and>
     (\<forall>t\<in>set ts. \<exists>s. t = Str s \<and> d \<notin> set s) \<and>
     (max_parts = None \<longrightarrow> length ts \<le> width) \<and>
     (length ts \<le> width \<longrightarrow>
        filter (\<lambda>v. \<not> isna v)
          (map (\<lambda>i. cell_of (rows out ! k) (slot_name prefix i)) [0..<width]) = ts \<and>
        (\<exists>s. py_join [d] (filter (\<lambda>v. \<not> isna v)
                 (map (\<lambda>i. cell_of (rows out ! k) (slot_name prefix i)) [0..<width])) = Inr s \<and>
             s = join [d] (map py_str ts) \<and>
             parse_delimited_column [Str s] [d] True = Inr [ts]))"
proof -
  define list_series where "list_series = map (\<lambda>r. map Str (tokens d (cell_of r column))) (rows df)"
  define width where
    "width = nat (case max_parts of Some m \<Rightarrow> m | None \<Rightarrow> int (inferred_max list_series))"
  define out where
    "out = fold (\<lambda>i out. set_column out (slot_name prefix i) (map (slot i) list_series))
             [0..<width] df"
  define tk where "tk = tokens d (cell_of (rows df ! k) column)"
  define ts where "ts = map Str tk"
  note p = split_delimited_props[OF assms(1) list_series_def width_def out_def]
  have 1: "parse_delimited_column (map (\<lambda>r. cell_of r column) (rows df)) [d] True = Inr list_series"
    unfolding list_series_def by (rule parse_column_tokens)
  have 2: "width = (case max_parts of
                Some m \<Rightarrow> nat m
              | None \<Rightarrow> if list_series = [] then 0 else Max (set (map length list_series)))"
    by (simp add: width_def inferred_max_def split: option.splits)
  have 3: "ts = list_series ! k" using assms(2) by (simp add: ts_def tk_def list_series_def)
  have 4: "parse_delimited_column [cell_of (rows df ! k) column] [d] True = Inr [ts]"
    by (simp add: parse_tokens ts_def tk_def)
  have 5: "\<forall>t\<in>set ts. \<exists>s. t = Str s \<and> d \<notin> set s"
    using tokens_props(2)[of _ d "cell_of (rows df ! k) column"] by (auto simp: ts_def tk_def)
  have 6: "max_parts = None \<longrightarrow> length ts \<le> width"
  proof
    assume n: "max_parts = None"
    have "list_series \<noteq> []" using assms(2) by (auto simp: list_series_def)
    moreover have "length ts \<in> set (map length list_series)"
      using 3 assms(2) by (auto simp: list_series_def)
    ultimately show "length ts \<le> width" using n by (simp add: 2)
  qed
  have row: "rows out ! k = fold (\<lambda>i r. AList.update (slot_name prefix i) (slot i ts) r)
                              [0..<width] (rows df ! k)"
    using assms(2) 3 by (simp add: p(3) list_series_def)
  have slots: "map (\<lambda>i. cell_of (rows out ! k) (slot_name prefix i)) [0..<width]
               = map (\<lambda>i. slot i ts) [0..<width]"
    unfolding row
    by (rule map_cong) (simp_all add: cell_fold_hit[of "slot_name prefix" "[0..<width]"] distinct_slot_names)
  have 7: "length ts \<le> width \<longrightarrow>
        filter (\<lambda>v. \<not> isna v)
          (map (\<lambda>i. cell_of (rows out ! k) (slot_name prefix i)) [0..<width]) = ts \<and>
        (\<exists>s. py_join [d] (filter (\<lambda>v. \<not> isna v)
                 (map (\<lambda>i. cell_of (rows out ! k) (slot_name prefix i)) [0..<width])) = Inr s \<and>
             s = join [d] (map py_str ts) \<and>
             parse_delimited_column [Str s] [d] True = Inr [ts])"
  proof
    assume le: "length ts \<le> width"
    have f: "filter (\<lambda>v. \<not> isna v)
          (map (\<lambda>i. cell_of (rows out ! k) (slot_name prefix i)) [0..<width]) = ts"
      unfolding slots slots_of_short_list[OF le] unfolding ts_def by (rule filter_not_na_strs)
    have m: "map py_str ts = tk" by (simp add: ts_def comp_def)
    have j: "py_join [d] ts = Inr (join [d] (map py_str ts))"
      unfolding m unfolding ts_def by (rule py_join_strs)
    have r: "parse_delimited_column [Str (join [d] (map py_str ts))] [d] True = Inr [ts]"
      unfolding m by (simp add: parse_tokens ts_def tk_def tokens_idem)
    show "filter (\<lambda>v. \<not> isna v)
          (map (\<lambda>i. cell_of (rows out ! k) (slot_name prefix i)) [0..<width]) = ts \<and>
        (\<exists>s. py_join [d] (filter (\<lambda>v. \<not> isna v)
                 (map (\<lambda>i. cell_of (rows out ! k) (slot_name prefix i)) [0..<width])) = Inr s \<and>
             s = join [d] (map py_str ts) \<and>
             parse_delimited_column [Str s] [d] True = Inr [ts])"
      unfolding f using j r by simp
  qed
  show ?thesis using 1 2 3 4 5 6 7 p(1) by blast
qed

theorem split_then_join_reproduces_tokens_witness:
  "''items'' \<in> set (columns \<lparr>columns = [''unit_id'', ''items''],
                              rows = [[(''unit_id'', Str ''Ahri''), (''items'', Str ''ItemA; ItemB;'')]]\<rparr>) \<and>
   0 < length (rows \<lparr>columns = [''unit_id'', ''items''],
                     rows = [[(''unit_id'', Str ''Ahri''), (''items'', Str ''ItemA; ItemB;'')]]\<rparr>) \<and>
   (\<exists>out. split_delimited_to_columns
            \<lparr>columns = [''unit_id'', ''items''],
             rows = [[(''unit_id'', Str ''Ahri''), (''items'', Str ''ItemA; ItemB;'')]]\<rparr>
            ''items'' ''item'' '';'' (Some 3) = Inr out \<and>
          filter (\<lambda>v. \<not> isna v)
            (map (\<lambda>i. cell_of (rows out ! 0) (slot_name ''item'' i)) [0..<3])
            = [Str ''ItemA'', Str ''ItemB''] \<and>
          py_join '';'' (filter (\<lambda>v. \<not> isna v)
            (map (\<lambda>i. cell_of (rows out ! 0) (slot_name ''item'' i)) [0..<3]))
            = Inr ''ItemA;ItemB'' \<and>
          parse_delimited_column [Str ''ItemA;ItemB''] '';'' True
            = Inr [[Str ''ItemA'', Str ''ItemB'']])"
proof -
  let ?df = "\<lparr>columns = [''unit_id'', ''items''],
              rows = [[(''unit_id'', Str ''Ahri''), (''items'', Str ''ItemA; ItemB;'')]]\<rparr>"
  have c: "''items'' \<in> set (columns ?df)" by simp
  have k: "0 < length (rows ?df)" by simp
  have e: "parse_delimited_column (map (\<lambda>r. cell_of r ''items'') (rows ?df)) '';'' True
           = Inr [[Str ''ItemA'', Str ''ItemB'']]"
    by (simp add: parse_delimited_column_def split_cell_def py_split_def strip_def isspace_def
        cell_of_def)
  from split_then_join_reproduces_tokens[OF c k, of "CHR '';''" "''item''" "Some 3"]
  obtain list_series out width ts where
    p: "parse_delimited_column (map (\<lambda>r. cell_of r ''items'') (rows ?df)) '';'' True = Inr list_series"
    and s: "split_delimited_to_columns ?df ''items'' ''item'' '';'' (Some 3) = Inr out"
    and w: "width = (case Some 3 of Some m \<Rightarrow> nat m
              | None \<Rightarrow> if list_series = [] then 0 else Max (set (map length list_series)))"
    and t: "ts = list_series ! 0"
    and j: "length ts \<le> width \<longrightarrow>
        filter (\<lambda>v. \<not> isna v)
          (map (\<lambda>i. cell_of (rows out ! 0) (slot_name ''item'' i)) [0..<width]) = ts \<and>
        (\<exists>s. py_join '';'' (filter (\<lambda>v. \<not> isna v)
                 (map (\<lambda>i. cell_of (rows out ! 0) (slot_name ''item'' i)) [0..<width])) = Inr s \<and>
             s = join '';'' (map py_str ts) \<and>
             parse_delimited_column [Str s] '';'' True = Inr [ts])"
    by blast
  have l: "list_series = [[Str ''ItemA'', Str ''ItemB'']]" using p e by simp
  have w3: "width = 3" using w by simp
  have ts: "ts = [Str ''ItemA'', Str ''ItemB'']" using t l by simp
  have le: "length ts \<le> width" by (simp add: ts w3)
  have js: "join '';'' (map py_str ts) = ''ItemA;ItemB''" by (simp add: ts)
  from j[rule_format, OF le] obtain s' where
    f: "filter (\<lambda>v. \<not> isna v)
          (map (\<lambda>i. cell_of (rows out ! 0) (slot_name ''item'' i)) [0..<width]) = ts"
    and pj: "py_join '';'' (filter (\<lambda>v. \<not> isna v)
                 (map (\<lambda>i. cell_of (rows out ! 0) (slot_name ''item'' i)) [0..<width])) = Inr s'"
    and s': "s' = join '';'' (map py_str ts)"
    and again: "parse_delimited_column [Str s'] '';'' True = Inr [ts]"
    by blast
  have s'': "s' = ''ItemA;ItemB''" using s' js by simp
  show ?thesis using c k s f pj again unfolding w3 s'' ts by blast
qed

section \<open>The two splitters\<close>

lemma parts_of_fillna: "parts_of delimiter (fillna v) = split_cell delimiter True v"
proof (cases "isna v \<or> v = Str []")
  case True
  then show ?thesis by (auto simp: parts_of_def fillna_def split_cell_def)
next
  case False
  then have f: "fillna v = v" and n: "v \<noteq> Str []" by (auto simp: fillna_def)
  show ?thesis using False
    by (simp add: f parts_of_def split_cell_def filter_map comp_def split: sum.splits)
qed

lemma parts_list_parse:
  "series_apply (parts_of delimiter) (map fillna series)
     = parse_delimited_column series delimiter True"
  by (simp add: series_apply_map parts_of_fillna parse_delimited_column_def)

lemma fold_max_inferred: "fold max (map length parts_list) 0 = inferred_max parts_list"
proof (cases parts_list)
  case Nil
  then show ?thesis by (simp add: inferred_max_def)
next
  case (Cons x xs)
  have "fold max (map length parts_list) 0 = Max (set (0 # map length parts_list))"
    by (simp only: Max.set_eq_fold)
  also have "\<dots> = Max (set (map length parts_list))" using Cons by simp
  finally show ?thesis using Cons by (simp add: inferred_max_def)
qed

lemma fold_pairs:
  "fold (\<lambda>(name, vals) out. set_column out name vals) (map (\<lambda>i. (nm i, vs i)) js) df
     = fold (\<lambda>i out. set_column out (nm i) (vs i)) js df"
  by (simp add: fold_map comp_def)

lemma split_delimited_unfold:
  assumes "column \<in> set (columns df)"
  shows "split_delimited_to_columns df column prefix delimiter max_parts =
     (case parse_delimited_column (map (\<lambda>r. cell_of r column) (rows df)) delimiter True of
        Inl e \<Rightarrow> Inl e
      | Inr list_series \<Rightarrow>
          Inr (fold (\<lambda>i out. set_column out (slot_name prefix i) (map (slot i) list_series))
                 [0..<nat (case max_parts of
                             Some m \<Rightarrow> m
                           | None \<Rightarrow> int (inferred_max list_series))] df))"
proof -
  have g: "get_column df column = Inr (map (\<lambda>r. cell_of r column) (rows df))"
    using assms by (simp add: get_column_def)
  show ?thesis
    unfolding split_delimited_to_columns_def g sum.case Let_def using assms by simp
qed

lemma split_column_unfold:
  assumes "column \<in> set (columns df)"
  shows "split_column df column prefix delimiter max_parts drop_original =
     (case parse_delimited_column (map (\<lambda>r. cell_of r column) (rows df)) delimiter True of
        Inl e \<Rightarrow> Inl e
      | Inr list_series \<Rightarrow>
          (case (if drop_original
                 then drop_column
                        (fold (\<lambda>i out. set_column out (slot_name prefix i) (map (slot i) list_series))
                           [0..<nat (case max_parts of
                                       Some m \<Rightarrow> m
                                     | None \<Rightarrow> int (inferred_max list_series))] df) column
                 else Inr (fold (\<lambda>i out. set_column out (slot_name prefix i) (map (slot i) list_series))
                           [0..<nat (case max_parts of
                                       Some m \<Rightarrow> m
                                     | None \<Rightarrow> int (inferred_max list_series))] df)) of
             Inl e \<Rightarrow> Inl e
           | Inr out2 \<Rightarrow>
               select_columns out2
                 (concat (map (\<lambda>col. if col = column
                                     then (if \<not> drop_original then [col] else [])
                                          @ map (slot_name prefix)
                                              [0..<nat (case max_parts of
                                                          Some m \<Rightarrow> m
                                                        | None \<Rightarrow> int (inferred_max list_series))]
                                     else [col]) (columns df)))))"
proof -
  have g: "get_column df column = Inr (map (\<lambda>r. cell_of r column) (rows df))"
    using assms by (simp add: get_column_def)
  show ?thesis
  proof (cases "parse_delimited_column (map (\<lambda>r. cell_of r column) (rows df)) delimiter True")
    case (Inl e)
    show ?thesis
      unfolding split_column_def g sum.case parts_list_parse Inl using assms by simp
  next
    case (Inr ls)
    show ?thesis
      unfolding split_column_def g sum.case parts_list_parse Inr Let_def fold_max_inferred
        fold_pairs list.map_comp comp_def fst_conv
      using assms by simp
  qed
qed

lemma map_of_tabulate:
  "map_of (map (\<lambda>n. (n, f n)) names) k = (if k \<in> set names then Some (f k) else None)"
  by (induction names) auto

lemma select_columns_get:
  assumes "select_columns df names = Inr out" and "n \<in> set names"
  shows "get_column out n = get_column df n" and "n \<in> set (columns df)"
proof -
  have all: "filter (\<lambda>n. n \<notin> set (columns df)) names = []"
    using assms(1) by (auto simp: select_columns_def split: list.splits)
  then show m: "n \<in> set (columns df)" using assms(2) by (auto simp: filter_empty_conv)
  have out: "out = \<lparr>columns = names,
                    rows = map (\<lambda>r. map (\<lambda>n. (n, cell_of r n)) names) (rows df)\<rparr>"
    using assms(1) all by (simp add: select_columns_def)
  have "cell_of (map (\<lambda>n. (n, cell_of r n)) names) n = cell_of r n" for r
    using assms(2) by (simp add: cell_of_def map_of_tabulate)
  then show "get_column out n = get_column df n"
    using m assms(2) by (simp add: out get_column_def comp_def)
qed

lemma drop_column_get:
  assumes "drop_column df c = Inr out" and "n \<noteq> c"
  shows "get_column out n = get_column df n"
proof -
  have out: "out = \<lparr>columns = filter (\<lambda>n. n \<noteq> c) (columns df),
                    rows = map (AList.delete c) (rows df)\<rparr>"
    using assms(1) by (auto simp: drop_column_def split: if_splits)
  have "cell_of (AList.delete c r) n = cell_of r n" for r
    using assms(2) by (simp add: cell_of_def delete_conv')
  then show ?thesis using assms(2) by (simp add: out get_column_def comp_def)
qed

lemma drop_column_columns:
  "drop_column df c = Inr out \<Longrightarrow> c \<notin> set (columns out)"
  by (auto simp: drop_column_def split: if_splits)

lemma fold_set_column_length:
  "length ls = length (rows df) \<Longrightarrow>
   length (rows (fold (\<lambda>i out. set_column out (nm i) (map (g i) ls)) js df)) = length (rows df)"
  by (simp add: fold_set_column_rows)

lemma select_columns_length:
  "select_columns df names = Inr out \<Longrightarrow> length (rows out) = length (rows df)"
  by (auto simp: select_columns_def split: list.splits)

lemma drop_column_length:
  "drop_column df c = Inr out \<Longrightarrow> length (rows out) = length (rows df)"
  by (auto simp: drop_column_def split: if_splits)

lemma split_column_slots:
  assumes c: "column \<in> set (columns df)"
    and p: "parse_delimited_column (map (\<lambda>r. cell_of r column) (rows df)) delimiter True
              = Inr list_series"
    and w: "width = nat (case max_parts of Some m \<Rightarrow> m | None \<Rightarrow> int (inferred_max list_series))"
    and o2: "out2 = fold (\<lambda>i out. set_column out (slot_name prefix i) (map (slot i) list_series))
                      [0..<width] df"
    and s: "split_column df column prefix delimiter max_parts drop_original = Inr out1"
  shows "split_delimited_to_columns df column prefix delimiter max_parts = Inr out2"
    and "length (rows out1) = length (rows out2)"
    and "i < width \<Longrightarrow> \<exists>vs. get_column out1 (slot_name prefix i) = Inr vs \<and>
                              get_column out2 (slot_name prefix i) = Inr vs"
proof -
  let ?ordered = "concat (map (\<lambda>col. if col = column
                                     then (if \<not> drop_original then [col] else [])
                                          @ map (slot_name prefix) [0..<width]
                                     else [col]) (columns df))"
  show "split_delimited_to_columns df column prefix delimiter max_parts = Inr out2"
    unfolding split_delimited_unfold[OF c] p o2 w by simp
  have s': "(case (if drop_original then drop_column out2 column else Inr out2) of
               Inl e \<Rightarrow> Inl e
             | Inr out3 \<Rightarrow> select_columns out3 ?ordered) = Inr out1"
    using s unfolding split_column_unfold[OF c] p o2 w by simp
  then obtain out3 where d: "(if drop_original then drop_column out2 column else Inr out2) = Inr out3"
    and sel: "select_columns out3 ?ordered = Inr out1"
    by (auto split: sum.splits)
  have l3: "length (rows out3) = length (rows out2)"
    using d drop_column_length[of out2 column out3] by (auto split: if_splits)
  show "length (rows out1) = length (rows out2)"
    using select_columns_length[OF sel] l3 by simp
  show "\<exists>vs. get_column out1 (slot_name prefix i) = Inr vs \<and>
             get_column out2 (slot_name prefix i) = Inr vs" if i: "i < width"
  proof -
    have m: "slot_name prefix i \<in> set ?ordered" using c i by auto
    have g1: "get_column out1 (slot_name prefix i) = get_column out3 (slot_name prefix i)"
      and c3: "slot_name prefix i \<in> set (columns out3)"
      using select_columns_get[OF sel m] by simp_all
    have g3: "get_column out3 (slot_name prefix i) = get_column out2 (slot_name prefix i)"
    proof (cases drop_original)
      case True
      then have dc: "drop_column out2 column = Inr out3" using d by simp
      have "slot_name prefix i \<noteq> column" using drop_column_columns[OF dc] c3 by auto
      then show ?thesis using drop_column_get[OF dc] by simp
    next
      case False
      then show ?thesis using d by simp
    qed
    have "slot_name prefix i \<in> set (columns out2)"
      unfolding o2 using i
      by (simp add: fold_set_column_columns distinct_slot_names)
    then have "get_column out2 (slot_name prefix i)
                 = Inr (map (\<lambda>r. cell_of r (slot_name prefix i)) (rows out2))"
      by (simp add: get_column_def)
    then show ?thesis using g1 g3 by simp
  qed
qed

text \<open>
  Where \<open>split_column\<close> (split_columns.py) returns, it agrees with
  \<open>split_delimited_to_columns\<close> (data_processing.py), for every table, column, prefix,
  delimiter and \<open>max_parts\<close>: the token lists that \<open>split_column\<close> builds from the
  filled series are the ones \<open>parse_delimited_column\<close> gives (also when the delimiter is
  refused), and its inferred width is the same; without the column both return the
  table; an error of \<open>split_delimited_to_columns\<close> is the error of \<open>split_column\<close>; and
  when \<open>split_column\<close> returns a table, \<open>split_delimited_to_columns\<close> returns one with
  as many rows in which every column \<open>prefix_i\<close>, \<open>i\<close> below the width, holds the same
  values.
\<close>

lemma split_column_agrees_with_split_delimited_to_columns:
  "(\<forall>series. series_apply (parts_of delimiter) (map fillna series)
               = parse_delimited_column series delimiter True) \<and>
   (\<forall>parts_list. fold max (map length parts_list) 0 = inferred_max parts_list) \<and>
   (column \<notin> set (columns df) \<longrightarrow>
      split_column df column prefix delimiter max_parts drop_original = Inr df \<and>
      split_delimited_to_columns df column prefix delimiter max_parts = Inr df) \<and>
   (\<forall>e. split_delimited_to_columns df column prefix delimiter max_parts = Inl e \<longrightarrow>
        split_column df column prefix delimiter max_parts drop_original = Inl e) \<and>
   (\<forall>out1. column \<in> set (columns df) \<and>
           split_column df column prefix delimiter max_parts drop_original = Inr out1 \<longrightarrow>
      (\<exists>out2 list_series width.
          split_delimited_to_columns df column prefix delimiter max_parts = Inr out2 \<and>
          parse_delimited_column (map (\<lambda>r. cell_of r column) (rows df)) delimiter True
            = Inr list_series \<and>
          width = (case max_parts of
                     Some m \<Rightarrow> nat m
                   | None \<Rightarrow> if list_series = [] then 0
                             else Max (set (map length list_series))) \<and>
          length (rows out1) = length (rows out2) \<and>
          (\<forall>i<width. \<exists>vs. get_column out1 (slot_name prefix i) = Inr vs \<and>
                             get_column out2 (slot_name prefix i) = Inr vs)))"
proof -
  have 1: "\<forall>series. series_apply (parts_of delimiter) (map fillna series)
               = parse_delimited_column series delimiter True"
    by (simp add: parts_list_parse)
  have 2: "\<forall>parts_list :: cell list list. fold max (map length parts_list) 0 = inferred_max parts_list"
    by (simp add: fold_max_inferred)
  have 3: "column \<notin> set (columns df) \<longrightarrow>
      split_column df column prefix delimiter max_parts drop_original = Inr df \<and>
      split_delimited_to_columns df column prefix delimiter max_parts = Inr df"
    by (simp add: split_column_def split_delimited_to_columns_def)
  have 4: "\<forall>e. split_delimited_to_columns df column prefix delimiter max_parts = Inl e \<longrightarrow>
        split_column df column prefix delimiter max_parts drop_original = Inl e"
  proof (intro allI impI)
    fix e assume f: "split_delimited_to_columns df column prefix delimiter max_parts = Inl e"
    then have c: "column \<in> set (columns df)"
      by (auto simp: split_delimited_to_columns_def split: if_splits)
    have "parse_delimited_column (map (\<lambda>r. cell_of r column) (rows df)) delimiter True = Inl e"
      using f unfolding split_delimited_unfold[OF c] by (auto split: sum.splits)
    then show "split_column df column prefix delimiter max_parts drop_original = Inl e"
      unfolding split_column_unfold[OF c] by simp
  qed
  have 5: "\<forall>out1. column \<in> set (columns df) \<and>
           split_column df column prefix delimiter max_parts drop_original = Inr out1 \<longrightarrow>
      (\<exists>out2 list_series width.
          split_delimited_to_columns df column prefix delimiter max_parts = Inr out2 \<and>
          parse_delimited_column (map (\<lambda>r. cell_of r column) (rows df)) delimiter True
            = Inr list_series \<and>
          width = (case max_parts of
                     Some m \<Rightarrow> nat m
                   | None \<Rightarrow> if list_series = [] then 0
                             else Max (set (map length list_series))) \<and>
          length (rows out1) = length (rows out2) \<and>
          (\<forall>i<width. \<exists>vs. get_column out1 (slot_name prefix i) = Inr vs \<and>
                             get_column out2 (slot_name prefix i) = Inr vs))"
  proof (intro allI impI)
    fix out1
    assume a: "column \<in> set (columns df) \<and>
           split_column df column prefix delimiter max_parts drop_original = Inr out1"
    then have c: "column \<in> set (columns df)"
      and s: "split_column df column prefix delimiter max_parts drop_original = Inr out1"
      by simp_all
    obtain list_series where
      p: "parse_delimited_column (map (\<lambda>r. cell_of r column) (rows df)) delimiter True
            = Inr list_series"
      using s unfolding split_column_unfold[OF c] by (auto split: sum.splits)
    define width where
      "width = nat (case max_parts of Some m \<Rightarrow> m | None \<Rightarrow> int (inferred_max list_series))"
    define out2 where
      "out2 = fold (\<lambda>i out. set_column out (slot_name prefix i) (map (slot i) list_series))
                [0..<width] df"
    note q = split_column_slots[OF c p width_def out2_def s]
    have w: "width = (case max_parts of
                     Some m \<Rightarrow> nat m
                   | None \<Rightarrow> if list_series = [] then 0
                             else Max (set (map length list_series)))"
      by (simp add: width_def inferred_max_def split: option.splits)
    show "\<exists>out2 list_series width.
          split_delimited_to_columns df column prefix delimiter max_parts = Inr out2 \<and>
          parse_delimited_column (map (\<lambda>r. cell_of r column) (rows df)) delimiter True
            = Inr list_series \<and>
          width = (case max_parts of
                     Some m \<Rightarrow> nat m
                   | None \<Rightarrow> if list_series = [] then 0
                             else Max (set (map length list_series))) \<and>
          length (rows out1) = length (rows out2) \<and>
          (\<forall>i<width. \<exists>vs. get_column out1 (slot_name prefix i) = Inr vs \<and>
                             get_column out2 (slot_name prefix i) = Inr vs)"
      using q(1) p w q(2) q(3) by blast
  qed
  show ?thesis using 1 2 3 4 5 by blast
qed

lemma split_column_agrees_with_split_delimited_to_columns_example:
  "''comp'' \<in> set (columns \<lparr>columns = [''name'', ''comp''],
                             rows = [[(''name'', Str ''Bow''), (''comp'', Str ''Rod; Belt;'')],
                                     [(''name'', Str ''Rod''), (''comp'', NA)]]\<rparr>) \<and>
   split_column \<lparr>columns = [''name'', ''comp''],
                 rows = [[(''name'', Str ''Bow''), (''comp'', Str ''Rod; Belt;'')],
                         [(''name'', Str ''Rod''), (''comp'', NA)]]\<rparr>
     ''comp'' ''comp'' '';'' (Some 2) True
   = Inr \<lparr>columns = [''name'', ''comp_0'', ''comp_1''],
          rows = [[(''name'', Str ''Bow''), (''comp_0'', Str ''Rod''), (''comp_1'', Str ''Belt'')],
                  [(''name'', Str ''Rod''), (''comp_0'', NA), (''comp_1'', NA)]]\<rparr> \<and>
   (\<exists>out2. split_delimited_to_columns
             \<lparr>columns = [''name'', ''comp''],
              rows = [[(''name'', Str ''Bow''), (''comp'', Str ''Rod; Belt;'')],
                      [(''name'', Str ''Rod''), (''comp'', NA)]]\<rparr>
             ''comp'' ''comp'' '';'' (Some 2) = Inr out2 \<and>
           get_column out2 ''comp_0'' = Inr [Str ''Rod'', NA] \<and>
           get_column out2 ''comp_1'' = Inr [Str ''Belt'', NA])"
proof -
  let ?df = "\<lparr>columns = [''name'', ''comp''],
              rows = [[(''name'', Str ''Bow''), (''comp'', Str ''Rod; Belt;'')],
                      [(''name'', Str ''Rod''), (''comp'', NA)]]\<rparr>"
  let ?out1 = "\<lparr>columns = [''name'', ''comp_0'', ''comp_1''],
          rows = [[(''name'', Str ''Bow''), (''comp_0'', Str ''Rod''), (''comp_1'', Str ''Belt'')],
                  [(''name'', Str ''Rod''), (''comp_0'', NA), (''comp_1'', NA)]]\<rparr>"
  have c: "''comp'' \<in> set (columns ?df)" by simp
  have n: "[0..<2] = [0, Suc 0]" by (simp add: upt_rec)
  have n0: "slot_name ''comp'' 0 = ''comp_0''" and n1: "slot_name ''comp'' (Suc 0) = ''comp_1''"
    by (simp_all add: slot_name_def str_nat.simps digit_char_def)
  have e: "split_column ?df ''comp'' ''comp'' '';'' (Some 2) True = Inr ?out1"
    by (simp add: split_column_def get_column_def fillna_def parts_of_def py_split_def
        strip_def isspace_def n n0 n1 slot_def set_column_def drop_column_def
        select_columns_def cell_of_def)
  from split_column_agrees_with_split_delimited_to_columns
         [of "'';''" "''comp''" ?df "''comp''" "Some 2" True] c e
  obtain out2 width where
    s: "split_delimited_to_columns ?df ''comp'' ''comp'' '';'' (Some 2) = Inr out2"
    and w: "width = nat 2"
    and g: "\<forall>i<width. \<exists>vs. get_column ?out1 (slot_name ''comp'' i) = Inr vs \<and>
                             get_column out2 (slot_name ''comp'' i) = Inr vs"
    by auto
  have "get_column out2 ''comp_0'' = Inr [Str ''Rod'', NA]"
    using g[rule_format, of 0] w by (simp add: n0 get_column_def cell_of_def)
  moreover have "get_column out2 ''comp_1'' = Inr [Str ''Belt'', NA]"
    using g[rule_format, of 1] w by (simp add: n1 get_column_def cell_of_def)
  ultimately show ?thesis using c e s by blast
qed

section \<open>Where the two splitters part\<close>

text \<open>
  After a successful parse \<open>split_column\<close> fails in one case only: \<open>drop_original\<close> is
  set and one of the slot names is the name of the split column. The slot written under
  that name is dropped together with the original column, and the selection of the
  ordered columns then asks for it.
\<close>

lemma select_columns_missing:
  assumes "\<forall>n\<in>set names. n \<notin> set (columns df) \<longrightarrow> n = c"
    and "c \<in> set names" and "c \<notin> set (columns df)"
  shows "select_columns df names = Inl (KeyError c)"
proof -
  let ?m = "filter (\<lambda>n. n \<notin> set (columns df)) names"
  have ne: "?m \<noteq> []" using assms(2,3) by (auto simp: filter_empty_conv)
  then obtain n ns where m: "?m = n # ns" by (cases ?m) auto
  have "n \<in> set ?m" using m by simp
  then have "n = c" using assms(1) by auto
  then show ?thesis using m by (simp add: select_columns_def)
qed

lemma select_columns_present:
  assumes "\<forall>n\<in>set names. n \<in> set (columns df)"
  shows "\<exists>out. select_columns df names = Inr out"
proof -
  have "filter (\<lambda>n. n \<notin> set (columns df)) names = []"
    using assms by (auto simp: filter_empty_conv)
  then show ?thesis by (simp add: select_columns_def)
qed

lemma split_column_outcome:
  assumes c: "column \<in> set (columns df)"
    and p: "parse_delimited_column (map (\<lambda>r. cell_of r column) (rows df)) delimiter True
              = Inr list_series"
    and w: "width = nat (case max_parts of Some m \<Rightarrow> m | None \<Rightarrow> int (inferred_max list_series))"
  shows "drop_original \<and> column \<in> set (map (slot_name prefix) [0..<width]) \<Longrightarrow>
           split_column df column prefix delimiter max_parts drop_original = Inl (KeyError column)"
    and "\<not> (drop_original \<and> column \<in> set (map (slot_name prefix) [0..<width])) \<Longrightarrow>
           \<exists>out1. split_column df column prefix delimiter max_parts drop_original = Inr out1"
proof -
  define out2 where
    "out2 = fold (\<lambda>i out. set_column out (slot_name prefix i) (map (slot i) list_series))
              [0..<width] df"
  let ?names = "map (slot_name prefix) [0..<width]"
  let ?ordered = "concat (map (\<lambda>col. if col = column
                                     then (if \<not> drop_original then [col] else []) @ ?names
                                     else [col]) (columns df))"
  have c2: "columns out2 = columns df @ filter (\<lambda>n. n \<notin> set (columns df)) ?names"
    unfolding out2_def by (rule fold_set_column_columns) (rule distinct_slot_names)
  have s2: "set (columns out2) = set (columns df) \<union> set ?names" unfolding c2 by auto
  have u: "split_column df column prefix delimiter max_parts drop_original =
             (case (if drop_original then drop_column out2 column else Inr out2) of
                Inl e \<Rightarrow> Inl e
              | Inr out3 \<Rightarrow> select_columns out3 ?ordered)"
    unfolding split_column_unfold[OF c] p out2_def w by simp
  have so: "set ?ordered \<subseteq> set (columns df) \<union> set ?names" by auto
  have no: "set ?names \<subseteq> set ?ordered" using c by auto
  show "split_column df column prefix delimiter max_parts drop_original = Inl (KeyError column)"
    if h: "drop_original \<and> column \<in> set ?names"
  proof -
    let ?out3 = "\<lparr>columns = filter (\<lambda>n. n \<noteq> column) (columns out2),
                   rows = map (AList.delete column) (rows out2)\<rparr>"
    have d: "drop_column out2 column = Inr ?out3"
      using c s2 by (simp add: drop_column_def)
    have a: "\<forall>n\<in>set ?ordered. n \<notin> set (columns ?out3) \<longrightarrow> n = column"
      using so s2 by auto
    have b: "column \<in> set ?ordered" using h no by blast
    have "select_columns ?out3 ?ordered = Inl (KeyError column)"
      by (rule select_columns_missing[OF a b]) simp
    then show ?thesis unfolding u using h d by simp
  qed
  show "\<exists>out1. split_column df column prefix delimiter max_parts drop_original = Inr out1"
    if h: "\<not> (drop_original \<and> column \<in> set ?names)"
  proof (cases drop_original)
    case True
    let ?out3 = "\<lparr>columns = filter (\<lambda>n. n \<noteq> column) (columns out2),
                   rows = map (AList.delete column) (rows out2)\<rparr>"
    have d: "drop_column out2 column = Inr ?out3"
      using c s2 by (simp add: drop_column_def)
    have nc: "column \<notin> set ?names" using h True by simp
    have "\<forall>n\<in>set ?ordered. n \<in> set (columns ?out3)"
    proof
      fix n assume n: "n \<in> set ?ordered"
      have "n \<noteq> column" using n nc True by (auto split: if_splits)
      moreover have "n \<in> set (columns out2)" using n so s2 by blast
      ultimately show "n \<in> set (columns ?out3)" by simp
    qed
    from select_columns_present[OF this] show ?thesis unfolding u using True d by simp
  next
    case False
    have "\<forall>n\<in>set ?ordered. n \<in> set (columns out2)" using so s2 by blast
    from select_columns_present[OF this] show ?thesis unfolding u using False by simp
  qed
qed

text \<open>
  C10. The two splitters do not compute the same columns on every table. Take the table
  with the columns \<open>comp_0\<close> and \<open>z\<close> and the row \<open>a;b\<close>, \<open>k\<close>, and split \<open>comp_0\<close>
  with the prefix \<open>comp\<close>: the slot \<open>comp_0\<close> has the name of the split column.
  \<open>split_delimited_to_columns\<close> returns the table with \<open>comp_0 = a\<close> and \<open>comp_1 = b\<close>;
  \<open>split_column\<close> with \<open>drop_original\<close> raises \<^verbatim>\<open>KeyError\<close> for \<open>comp_0\<close> and produces
  no column.
\<close>

theorem split_column_fails_on_slot_named_as_column:
  "split_column
     \<lparr>columns = [''comp_0'', ''z''],
      rows = [[(''comp_0'', Str ''a;b''), (''z'', Str ''k'')]]\<rparr>
     ''comp_0'' ''comp'' '';'' None True
   = Inl (KeyError ''comp_0'') \<and>
   split_delimited_to_columns
     \<lparr>columns = [''comp_0'', ''z''],
      rows = [[(''comp_0'', Str ''a;b''), (''z'', Str ''k'')]]\<rparr>
     ''comp_0'' ''comp'' '';'' None
   = Inr \<lparr>columns = [''comp_0'', ''z'', ''comp_1''],
          rows = [[(''comp_0'', Str ''a''), (''z'', Str ''k''), (''comp_1'', Str ''b'')]]\<rparr>"
proof -
  let ?df = "\<lparr>columns = [''comp_0'', ''z''],
              rows = [[(''comp_0'', Str ''a;b''), (''z'', Str ''k'')]]\<rparr>"
  have raised: "split_column ?df ''comp_0'' ''comp'' '';'' None True = Inl (KeyError ''comp_0'')"
    by code_simp
  have returned: "split_delimited_to_columns ?df ''comp_0'' ''comp'' '';'' None
      = Inr \<lparr>columns = [''comp_0'', ''z'', ''comp_1''],
             rows = [[(''comp_0'', Str ''a''), (''z'', Str ''k''), (''comp_1'', Str ''b'')]]\<rparr>"
    by code_simp
  show ?thesis using raised returned by simp
qed

section \<open>Exploding a delimited column\<close>

lemma kept_of_exploded_row:
  "filter (\<lambda>r. \<not> isna (cell_of r column)) (explode_row column (r, map Str tk))
     = map (\<lambda>t. AList.update column t r) (map Str tk)"
  by (cases tk) (auto simp: explode_row_def cell_of_update filter_id_conv)

lemma kept_of_exploded:
  "filter (\<lambda>r. \<not> isna (cell_of r column))
     (concat (map (explode_row column) (zip rs (map (\<lambda>r. map Str (tk r)) rs))))
   = concat (map (\<lambda>(r, lst). map (\<lambda>t. AList.update column t r) lst)
            (zip rs (map (\<lambda>r. map Str (tk r)) rs)))"
proof -
  have "filter (\<lambda>r. \<not> isna (cell_of r column)) (explode_row column x)
          = (case x of (r, lst) \<Rightarrow> map (\<lambda>t. AList.update column t r) lst)"
    if "x \<in> set (zip rs (map (\<lambda>r. map Str (tk r)) rs))" for x
  proof -
    obtain r lst where x: "x = (r, lst)" by (cases x)
    have "lst \<in> set (map (\<lambda>r. map Str (tk r)) rs)" using that x by (auto dest: set_zip_rightD)
    then obtain r' where "lst = map Str (tk r')" by auto
    then show ?thesis using kept_of_exploded_row[of column r "tk r'"] x by simp
  qed
  then show ?thesis by (simp add: filter_concat comp_def cong: map_cong)
qed

lemma length_concat_rows:
  "length ls = length rs \<Longrightarrow>
   length (concat (map (\<lambda>(r, lst). map (f r) lst) (zip rs ls))) = sum_list (map length ls)"
proof (induction rs arbitrary: ls)
  case Nil
  then show ?case by simp
next
  case (Cons r rs)
  then show ?case by (cases ls) auto
qed

text \<open>
  C7. When the column is in the table and the delimiter is one character,
  \<open>explode_delimited_column\<close> succeeds; the tokens it parses are non-empty; its output
  has, for each input row in order, one row per token of the row's cell: the input row
  with the token in the place of the cell. So the number of output rows is the sum of
  the token counts, and a row without tokens gives no output row. The column is renamed
  to \<open>value_name\<close> (it keeps its name when \<open>value_name\<close> is \<^verbatim>\<open>None\<close> or empty).
\<close>

theorem explode_delimited_column_rows:
  assumes "column \<in> set (columns df)"
  shows "\<exists>list_series out name.
     parse_delimited_column (map (\<lambda>r. cell_of r column) (rows df)) [d] True = Inr list_series \<and>
     (\<forall>lst\<in>set list_series. \<forall>t\<in>set lst. \<exists>s. t = Str s \<and> s \<noteq> []) \<and>
     explode_delimited_column df column [d] value_name = Inr out \<and>
     name = (case value_name of None \<Rightarrow> column | Some n \<Rightarrow> if n = [] then column else n) \<and>
     columns out = map (\<lambda>n. if n = column then name else n) (columns df) \<and>
     rows out = concat (map (\<lambda>(r, lst).
                    map (\<lambda>t. map (\<lambda>(n, v). (if n = column then name else n, v))
                               (AList.update column t r)) lst)
                  (zip (rows df) list_series)) \<and>
     length (rows out) = sum_list (map length list_series)"
proof -
  define list_series where "list_series = map (\<lambda>r. map Str (tokens d (cell_of r column))) (rows df)"
  define name where
    "name = (case value_name of None \<Rightarrow> column | Some n \<Rightarrow> if n = [] then column else n)"
  define kept where
    "kept = concat (map (\<lambda>(r, lst). map (\<lambda>t. AList.update column t r) lst)
                     (zip (rows df) list_series))"
  define out where
    "out = rename_columns \<lparr>columns = columns df, rows = kept\<rparr> [(column, name)]"
  have 1: "parse_delimited_column (map (\<lambda>r. cell_of r column) (rows df)) [d] True = Inr list_series"
    unfolding list_series_def by (rule parse_column_tokens)
  have 2: "\<forall>lst\<in>set list_series. \<forall>t\<in>set lst. \<exists>s. t = Str s \<and> s \<noteq> []"
    using tokens_props(1) by (auto simp: list_series_def)
  have g: "get_column df column = Inr (map (\<lambda>r. cell_of r column) (rows df))"
    using assms by (simp add: get_column_def)
  have k: "filter (\<lambda>r. \<not> isna (cell_of r column))
             (concat (map (explode_row column) (zip (rows df) list_series))) = kept"
    unfolding kept_def list_series_def by (rule kept_of_exploded)
  have 3: "explode_delimited_column df column [d] value_name = Inr out"
    unfolding explode_delimited_column_def g 1 sum.case Let_def k out_def name_def by simp
  have nn: "(\<lambda>n. case map_of [(column, name)] n of None \<Rightarrow> n | Some m \<Rightarrow> m)
              = (\<lambda>n. if n = column then name else n)"
    by auto
  have 4: "columns out = map (\<lambda>n. if n = column then name else n) (columns df)"
    unfolding out_def rename_columns_def Let_def nn by simp
  have 5: "rows out = concat (map (\<lambda>(r, lst).
                    map (\<lambda>t. map (\<lambda>(n, v). (if n = column then name else n, v))
                               (AList.update column t r)) lst)
                  (zip (rows df) list_series))"
    unfolding out_def rename_columns_def Let_def nn
    by (simp add: kept_def map_concat comp_def split_def)
  have 6: "length (rows out) = sum_list (map length list_series)"
    unfolding 5 by (rule length_concat_rows) (simp add: list_series_def)
  show ?thesis using 1 2 3 4 5 6 name_def by blast
qed

theorem explode_delimited_column_rows_witness:
  "''items'' \<in> set (columns \<lparr>columns = [''unit_id'', ''items''],
                              rows = [[(''unit_id'', Str ''Ahri''), (''items'', Str ''A; B'')],
                                      [(''unit_id'', Str ''Lux''), (''items'', Str '' ;'')],
                                      [(''unit_id'', Str ''Zed''), (''items'', Str ''C'')]]\<rparr>) \<and>
   (\<exists>out. explode_delimited_column
            \<lparr>columns = [''unit_id'', ''items''],
             rows = [[(''unit_id'', Str ''Ahri''), (''items'', Str ''A; B'')],
                     [(''unit_id'', Str ''Lux''), (''items'', Str '' ;'')],
                     [(''unit_id'', Str ''Zed''), (''items'', Str ''C'')]]\<rparr>
            ''items'' '';'' (Some ''item'') = Inr out \<and>
          columns out = [''unit_id'', ''item''] \<and>
          rows out = [[(''unit_id'', Str ''Ahri''), (''item'', Str ''A'')],
                      [(''unit_id'', Str ''Ahri''), (''item'', Str ''B'')],
                      [(''unit_id'', Str ''Zed''), (''item'', Str ''C'')]] \<and>
          length (rows out) = 3)"
proof -
  let ?df = "\<lparr>columns = [''unit_id'', ''items''],
             rows = [[(''unit_id'', Str ''Ahri''), (''items'', Str ''A; B'')],
                     [(''unit_id'', Str ''Lux''), (''items'', Str '' ;'')],
                     [(''unit_id'', Str ''Zed''), (''items'', Str ''C'')]]\<rparr>"
  have c: "''items'' \<in> set (columns ?df)" by simp
  have e: "parse_delimited_column (map (\<lambda>r. cell_of r ''items'') (rows ?df)) '';'' True
           = Inr [[Str ''A'', Str ''B''], [], [Str ''C'']]"
    by (simp add: parse_delimited_column_def split_cell_def py_split_def strip_def isspace_def
        cell_of_def)
  from explode_delimited_column_rows[OF c, of "CHR '';''" "Some ''item''"]
  obtain list_series out name where
    p: "parse_delimited_column (map (\<lambda>r. cell_of r ''items'') (rows ?df)) '';'' True = Inr list_series"
    and x: "explode_delimited_column ?df ''items'' '';'' (Some ''item'') = Inr out"
    and n: "name = (case Some ''item'' of None \<Rightarrow> ''items'' | Some n \<Rightarrow> if n = [] then ''items'' else n)"
    and cs: "columns out = map (\<lambda>n. if n = ''items'' then name else n) (columns ?df)"
    and rs: "rows out = concat (map (\<lambda>(r, lst).
                    map (\<lambda>t. map (\<lambda>(n, v). (if n = ''items'' then name else n, v))
                               (AList.update ''items'' t r)) lst)
                  (zip (rows ?df) list_series))"
    and len: "length (rows out) = sum_list (map length list_series)"
    by blast
  have l: "list_series = [[Str ''A'', Str ''B''], [], [Str ''C'']]" using p e by simp
  have nm: "name = ''item''" using n by simp
  have "columns out = [''unit_id'', ''item'']" using cs by (simp add: nm)
  moreover have "rows out = [[(''unit_id'', Str ''Ahri''), (''item'', Str ''A'')],
                      [(''unit_id'', Str ''Ahri''), (''item'', Str ''B'')],
                      [(''unit_id'', Str ''Zed''), (''item'', Str ''C'')]]"
    using rs by (simp add: nm l)
  moreover have "length (rows out) = 3" using len by (simp add: l)
  ultimately show ?thesis using c x by blast
qed

section \<open>Participant counts\<close>

lemma nunique_card: "nunique vs = card (set (filter (\<lambda>v. \<not> isna v) vs))"
  by (simp add: nunique_def length_remdups_card_conv)

lemma group_puuids:
  "map snd (filter (\<lambda>(k, u). k = m) (zip (map f rs) (map g rs)))
     = map g (filter (\<lambda>r. f r = m) rs)"
  by (induction rs) auto

lemma filter_tabulate:
  "filter (\<lambda>(m, n). P n) (map (\<lambda>m. (m, f m)) xs) = map (\<lambda>m. (m, f m)) (filter (\<lambda>m. P (f m)) xs)"
  by (induction xs) auto

lemma validate_unfold:
  assumes "''match_id'' \<in> set (columns p)" and "''puuid'' \<in> set (columns p)"
  shows "validate_participant_counts p expected strict =
     (let bad = map (\<lambda>m. (m, card (distinct_puuids p m)))
                  (filter (\<lambda>m. int (card (distinct_puuids p m)) \<noteq> expected)
                     (remdups (filter (\<lambda>m. \<not> isna m) (map (\<lambda>r. cell_of r ''match_id'') (rows p)))))
      in if bad = [] then Inr []
         else if strict then Inl (ParticipantCountMismatch bad expected) else Inr bad)"
proof -
  have g1: "get_column p ''match_id'' = Inr (map (\<lambda>r. cell_of r ''match_id'') (rows p))"
    and g2: "get_column p ''puuid'' = Inr (map (\<lambda>r. cell_of r ''puuid'') (rows p))"
    using assms by (simp_all add: get_column_def)
  have cnt: "nunique (map snd (filter (\<lambda>(k, u). k = m)
               (zip (map (\<lambda>r. cell_of r ''match_id'') (rows p))
                    (map (\<lambda>r. cell_of r ''puuid'') (rows p)))))
             = card (distinct_puuids p m)" for m
    unfolding group_puuids nunique_card distinct_puuids_def by simp
  show ?thesis
    unfolding validate_participant_counts_def g1 g2 sum.case cnt Let_def filter_tabulate
    by simp
qed

text \<open>
  C3. For a participants table with the columns \<open>match_id\<close> and \<open>puuid\<close>:
  \<open>validate_participant_counts\<close> returns the empty mapping exactly when every match id
  of the table has \<open>expected_per_match\<close> distinct player ids. When some match has
  another count, the call with \<open>strict\<close> fails and the failure carries the mapping, and
  the call without \<open>strict\<close> returns it: one entry per match id, and a match id is
  mapped to \<open>n\<close> exactly when \<open>n\<close> is its number of distinct player ids and differs from
  the expected one.
\<close>

theorem validate_participant_counts_correct:
  assumes "''match_id'' \<in> set (columns p)" and "''puuid'' \<in> set (columns p)"
  shows "(validate_participant_counts p expected strict = Inr [] \<longleftrightarrow>
            (\<forall>m\<in>match_ids p. int (card (distinct_puuids p m)) = expected)) \<and>
         (\<not> (\<forall>m\<in>match_ids p. int (card (distinct_puuids p m)) = expected) \<longrightarrow>
            (\<exists>bad. validate_participant_counts p expected strict
                     = (if strict then Inl (ParticipantCountMismatch bad expected) else Inr bad) \<and>
                   bad \<noteq> [] \<and> distinct (map fst bad) \<and>
                   (\<forall>m n. map_of bad m = Some n \<longleftrightarrow>
                      m \<in> match_ids p \<and> n = card (distinct_puuids p m) \<and> int n \<noteq> expected)))"
proof -
  define groups where
    "groups = remdups (filter (\<lambda>m. \<not> isna m) (map (\<lambda>r. cell_of r ''match_id'') (rows p)))"
  define wrong where
    "wrong = filter (\<lambda>m. int (card (distinct_puuids p m)) \<noteq> expected) groups"
  define bad where "bad = map (\<lambda>m. (m, card (distinct_puuids p m))) wrong"
  have v: "validate_participant_counts p expected strict =
             (if bad = [] then Inr []
              else if strict then Inl (ParticipantCountMismatch bad expected) else Inr bad)"
    unfolding validate_unfold[OF assms] bad_def wrong_def groups_def by (simp add: Let_def)
  have sg: "set groups = match_ids p" by (simp add: groups_def match_ids_def)
  have e: "bad = [] \<longleftrightarrow> (\<forall>m\<in>match_ids p. int (card (distinct_puuids p m)) = expected)"
    by (auto simp: bad_def wrong_def filter_empty_conv sg[symmetric])
  have d: "distinct (map fst bad)" by (simp add: bad_def wrong_def groups_def comp_def)
  have m: "map_of bad m = Some n \<longleftrightarrow>
             m \<in> match_ids p \<and> n = card (distinct_puuids p m) \<and> int n \<noteq> expected" for m n
    unfolding bad_def map_of_tabulate by (auto simp: wrong_def sg[symmetric])
  have 1: "validate_participant_counts p expected strict = Inr [] \<longleftrightarrow>
            (\<forall>m\<in>match_ids p. int (card (distinct_puuids p m)) = expected)"
    using v e by auto
  have 2: "\<not> (\<forall>m\<in>match_ids p. int (card (distinct_puuids p m)) = expected) \<longrightarrow>
            (\<exists>bad. validate_participant_counts p expected strict
                     = (if strict then Inl (ParticipantCountMismatch bad expected) else Inr bad) \<and>
                   bad \<noteq> [] \<and> distinct (map fst bad) \<and>
                   (\<forall>m n. map_of bad m = Some n \<longleftrightarrow>
                      m \<in> match_ids p \<and> n = card (distinct_puuids p m) \<and> int n \<noteq> expected))"
  proof
    assume n: "\<not> (\<forall>m\<in>match_ids p. int (card (distinct_puuids p m)) = expected)"
    then have ne: "bad \<noteq> []" using e by simp
    have "validate_participant_counts p expected strict
            = (if strict then Inl (ParticipantCountMismatch bad expected) else Inr bad)"
      using v ne by simp
    then show "\<exists>bad. validate_participant_counts p expected strict
                     = (if strict then Inl (ParticipantCountMismatch bad expected) else Inr bad) \<and>
                   bad \<noteq> [] \<and> distinct (map fst bad) \<and>
                   (\<forall>m n. map_of bad m = Some n \<longleftrightarrow>
                      m \<in> match_ids p \<and> n = card (distinct_puuids p m) \<and> int n \<noteq> expected)"
      using ne d m by blast
  qed
  show ?thesis using 1 2 by blast
qed

theorem validate_participant_counts_correct_witness:
  "''match_id'' \<in> set (columns \<lparr>columns = [''match_id'', ''puuid''],
                                 rows = [[(''match_id'', Str ''m1''), (''puuid'', Str ''p1'')],
                                         [(''match_id'', Str ''m1''), (''puuid'', Str ''p2'')],
                                         [(''match_id'', Str ''m2''), (''puuid'', Str ''p3'')],
                                         [(''match_id'', Str ''m2''), (''puuid'', Str ''p3'')]]\<rparr>) \<and>
   ''puuid'' \<in> set (columns \<lparr>columns = [''match_id'', ''puuid''],
                              rows = [[(''match_id'', Str ''m1''), (''puuid'', Str ''p1'')],
                                      [(''match_id'', Str ''m1''), (''puuid'', Str ''p2'')],
                                      [(''match_id'', Str ''m2''), (''puuid'', Str ''p3'')],
                                      [(''match_id'', Str ''m2''), (''puuid'', Str ''p3'')]]\<rparr>) \<and>
   validate_participant_counts
     \<lparr>columns = [''match_id'', ''puuid''],
      rows = [[(''match_id'', Str ''m1''), (''puuid'', Str ''p1'')],
              [(''match_id'', Str ''m1''), (''puuid'', Str ''p2'')],
              [(''match_id'', Str ''m2''), (''puuid'', Str ''p3'')],
              [(''match_id'', Str ''m2''), (''puuid'', Str ''p3'')]]\<rparr> 2 True
     = Inl (ParticipantCountMismatch [(Str ''m2'', 1)] 2) \<and>
   card (distinct_puuids
     \<lparr>columns = [''match_id'', ''puuid''],
      rows = [[(''match_id'', Str ''m1''), (''puuid'', Str ''p1'')],
              [(''match_id'', Str ''m1''), (''puuid'', Str ''p2'')],
              [(''match_id'', Str ''m2''), (''puuid'', Str ''p3'')],
              [(''match_id'', Str ''m2''), (''puuid'', Str ''p3'')]]\<rparr> (Str ''m2'')) = 1"
proof -
  let ?p = "\<lparr>columns = [''match_id'', ''puuid''],
      rows = [[(''match_id'', Str ''m1''), (''puuid'', Str ''p1'')],
              [(''match_id'', Str ''m1''), (''puuid'', Str ''p2'')],
              [(''match_id'', Str ''m2''), (''puuid'', Str ''p3'')],
              [(''match_id'', Str ''m2''), (''puuid'', Str ''p3'')]]\<rparr>"
  have c1: "''match_id'' \<in> set (columns ?p)" and c2: "''puuid'' \<in> set (columns ?p)" by simp_all
  have e: "validate_participant_counts ?p 2 True = Inl (ParticipantCountMismatch [(Str ''m2'', 1)] 2)"
    by (simp add: validate_participant_counts_def get_column_def cell_of_def nunique_def)
  note t = validate_participant_counts_correct[OF c1 c2, of 2 True]
  have "\<not> (\<forall>m\<in>match_ids ?p. int (card (distinct_puuids ?p m)) = 2)"
    using t e by simp
  with t obtain bad where
    b: "validate_participant_counts ?p 2 True = Inl (ParticipantCountMismatch bad 2)"
    and m: "\<forall>m n. map_of bad m = Some n \<longleftrightarrow>
                      m \<in> match_ids ?p \<and> n = card (distinct_puuids ?p m) \<and> int n \<noteq> 2"
    by auto
  have "bad = [(Str ''m2'', 1)]" using b e by simp
  then have "map_of bad (Str ''m2'') = Some 1" by simp
  then have "card (distinct_puuids ?p (Str ''m2'')) = 1" using m by simp
  then show ?thesis using c1 c2 e by blast
qed

section \<open>The file system\<close>

lemma mkdir_parents_Inr:
  assumes "mkdir_parents w p exist_ok = Inr w'"
  shows "reads w' = reads w"
    and "nodes w q \<noteq> None \<Longrightarrow> nodes w' q = nodes w q"
    and "nodes w' q = Some (File t) \<Longrightarrow> nodes w q = Some (File t)"
    and "node_at w' p = Some Dir"
  using assms
  by (auto simp: mkdir_parents_def node_at_def split: option.splits node.splits if_splits)

lemma node_at_mkdir_file:
  assumes "mkdir_parents w p exist_ok = Inr w'"
  shows "node_at w' q = Some (File t) \<longleftrightarrow> node_at w q = Some (File t)"
  using mkdir_parents_Inr(2,3)[OF assms, of q] by (auto simp: node_at_def)

lemma resolve_Inr:
  assumes "resolve_processed_output_dir w base label = (Inr out, w')"
  shows "out = base @ label" and "mkdir_parents w (base @ label) False = Inr w'"
  using assms
  by (auto simp: resolve_processed_output_dir_def Let_def split: if_splits sum.splits)

lemma read_csv_Inr:
  assumes "read_csv w p = (Inr t, w')"
  shows "node_at w p = Some (File t)" and "w' = w\<lparr>reads := reads w @ [p]\<rparr>"
  using assms by (auto simp: read_csv_def Let_def split: option.splits node.splits)

lemma read_csv_file:
  "node_at w p = Some (File t) \<Longrightarrow> read_csv w p = (Inr t, w\<lparr>reads := reads w @ [p]\<rparr>)"
  by (simp add: read_csv_def)

lemma node_at_reads [simp]: "node_at (w\<lparr>reads := rs\<rparr>) p = node_at w p"
  by (simp add: node_at_def)

lemma to_csv_Inr:
  assumes "to_csv w df p = Inr w'"
  shows "w' = w\<lparr>nodes := (nodes w)(p \<mapsto> File df)\<rparr>"
  using assms by (auto simp: to_csv_def split: option.splits node.splits)

lemma build_success:
  assumes "build_canonical_tables w participants_path units_path traits_path base delimiter label
             = (Inr out, w')"
  obtains w1 w2 P U T P1 U1 T1 w6 w7 where
    "mkdir_parents w base True = Inr w1"
    "resolve_processed_output_dir w1 base label = (Inr out, w2)"
    "read_csv w2 participants_path = (Inr P, w2\<lparr>reads := reads w2 @ [participants_path]\<rparr>)"
    "read_csv (w2\<lparr>reads := reads w2 @ [participants_path]\<rparr>) units_path
       = (Inr U, w2\<lparr>reads := reads w2 @ [participants_path, units_path]\<rparr>)"
    "read_csv (w2\<lparr>reads := reads w2 @ [participants_path, units_path]\<rparr>) traits_path
       = (Inr T, w2\<lparr>reads := reads w2 @ [participants_path, units_path, traits_path]\<rparr>)"
    "canonical_tables P U T delimiter = Inr (P1, U1, T1)"
    "to_csv (w2\<lparr>reads := reads w2 @ [participants_path, units_path, traits_path]\<rparr>) P1
        (out @ [''participants.csv'']) = Inr w6"
    "to_csv w6 U1 (out @ [''units.csv'']) = Inr w7"
    "to_csv w7 T1 (out @ [''traits.csv'']) = Inr w'"
proof -
  from assms obtain w1 where 1: "mkdir_parents w base True = Inr w1"
    by (auto simp: build_canonical_tables_def split: sum.splits)
  from assms 1 obtain w2 where 2: "resolve_processed_output_dir w1 base label = (Inr out, w2)"
    by (auto simp: build_canonical_tables_def split: sum.splits prod.splits)
  from assms 1 2 obtain P w3 where 3: "read_csv w2 participants_path = (Inr P, w3)"
    by (auto simp: build_canonical_tables_def split: sum.splits prod.splits)
  from assms 1 2 3 obtain U w4 where 4: "read_csv w3 units_path = (Inr U, w4)"
    by (auto simp: build_canonical_tables_def split: sum.splits prod.splits)
  from assms 1 2 3 4 obtain T w5 where 5: "read_csv w4 traits_path = (Inr T, w5)"
    by (auto simp: build_canonical_tables_def split: sum.splits prod.splits)
  from assms 1 2 3 4 5 obtain P1 U1 T1 where 6: "canonical_tables P U T delimiter = Inr (P1, U1, T1)"
    by (auto simp: build_canonical_tables_def split: sum.splits prod.splits)
  from assms 1 2 3 4 5 6 obtain w6 where 7: "to_csv w5 P1 (out @ [''participants.csv'']) = Inr w6"
    by (auto simp: build_canonical_tables_def split: sum.splits prod.splits)
  from assms 1 2 3 4 5 6 7 obtain w7 where 8: "to_csv w6 U1 (out @ [''units.csv'']) = Inr w7"
    by (auto simp: build_canonical_tables_def split: sum.splits prod.splits)
  from assms 1 2 3 4 5 6 7 8 have 9: "to_csv w7 T1 (out @ [''traits.csv'']) = Inr w'"
    by (auto simp: build_canonical_tables_def split: sum.splits prod.splits)
  have w3: "w3 = w2\<lparr>reads := reads w2 @ [participants_path]\<rparr>" using read_csv_Inr(2)[OF 3] .
  have w4: "w4 = w2\<lparr>reads := reads w2 @ [participants_path, units_path]\<rparr>"
    using read_csv_Inr(2)[OF 4] by (simp add: w3)
  have w5: "w5 = w2\<lparr>reads := reads w2 @ [participants_path, units_path, traits_path]\<rparr>"
    using read_csv_Inr(2)[OF 5] by (simp add: w4)
  show thesis
    using that[OF 1 2 3[unfolded w3] 4[unfolded w3 w4] 5[unfolded w4 w5] 6 7[unfolded w5] 8 9] .
qed

section \<open>The trait filter\<close>

lemma gt_zero_mask:
  "series_apply gt_zero vs = Inr keep \<Longrightarrow> keep = map positive vs \<and> list_all (\<lambda>v. \<not> is_str v) vs"
proof (induction vs arbitrary: keep)
  case Nil
  then show ?case by simp
next
  case (Cons v vs)
  then show ?case by (cases v) (auto split: sum.splits)
qed

lemma filter_by_mask:
  "map fst (filter snd (zip rs (map g rs))) = filter g rs"
  by (induction rs) auto

lemma active_traits_Inr:
  assumes "active_traits T = Inr T1"
  shows "T1 = \<lparr>columns = columns T,
               rows = filter (\<lambda>r. positive (cell_of r ''tier_current'')) (rows T)\<rparr>"
    and "list_all (\<lambda>r. \<not> is_str (cell_of r ''tier_current'')) (rows T)"
proof -
  from assms obtain keep where
    k: "series_apply gt_zero (map (\<lambda>r. cell_of r ''tier_current'') (rows T)) = Inr keep"
    and t: "T1 = \<lparr>columns = columns T, rows = map fst (filter snd (zip (rows T) keep))\<rparr>"
    by (auto simp: active_traits_def get_column_def split: if_splits sum.splits)
  from gt_zero_mask[OF k] have
    m: "keep = map (\<lambda>r. positive (cell_of r ''tier_current'')) (rows T)"
    and n: "list_all (\<lambda>v. \<not> is_str v) (map (\<lambda>r. cell_of r ''tier_current'') (rows T))"
    by (simp_all add: comp_def)
  show "T1 = \<lparr>columns = columns T,
               rows = filter (\<lambda>r. positive (cell_of r ''tier_current'')) (rows T)\<rparr>"
    unfolding t m by (simp add: filter_by_mask)
  show "list_all (\<lambda>r. \<not> is_str (cell_of r ''tier_current'')) (rows T)"
    using n by (simp add: list.pred_map comp_def)
qed

lemma canonical_tables_traits:
  "canonical_tables P U T delimiter = Inr (P1, U1, T1) \<Longrightarrow> active_traits T = Inr T1"
  by (auto simp: canonical_tables_def split: sum.splits)

text \<open>
  C9. When \<open>build_canonical_tables\<close> returns, the traits input was a file holding a table
  \<open>T\<close> whose \<open>tier_current\<close> cells are numbers or missing, and the file \<open>traits.csv\<close> of
  the output directory holds the columns of \<open>T\<close> and exactly the rows of \<open>T\<close> whose
  \<open>tier_current\<close> is greater than 0, unchanged and in their order.
\<close>

theorem build_canonical_tables_active_traits:
  assumes "build_canonical_tables w participants_path units_path traits_path base delimiter label
             = (Inr out, w')"
  shows "\<exists>T. node_at w traits_path = Some (File T) \<and>
             list_all (\<lambda>r. \<not> is_str (cell_of r ''tier_current'')) (rows T) \<and>
             out = base @ label \<and>
             nodes w' (out @ [''traits.csv''])
               = Some (File \<lparr>columns = columns T,
                             rows = filter (\<lambda>r. positive (cell_of r ''tier_current'')) (rows T)\<rparr>)"
proof -
  from assms obtain w1 w2 P U T P1 U1 T1 w6 w7 where
    1: "mkdir_parents w base True = Inr w1"
    and 2: "resolve_processed_output_dir w1 base label = (Inr out, w2)"
    and 5: "read_csv (w2\<lparr>reads := reads w2 @ [participants_path, units_path]\<rparr>) traits_path
       = (Inr T, w2\<lparr>reads := reads w2 @ [participants_path, units_path, traits_path]\<rparr>)"
    and 6: "canonical_tables P U T delimiter = Inr (P1, U1, T1)"
    and 9: "to_csv w7 T1 (out @ [''traits.csv'']) = Inr w'"
    by (rule build_success)
  have "node_at w2 traits_path = Some (File T)" using read_csv_Inr(1)[OF 5] by simp
  then have "node_at w1 traits_path = Some (File T)"
    using node_at_mkdir_file[OF resolve_Inr(2)[OF 2]] by simp
  then have a: "node_at w traits_path = Some (File T)"
    using node_at_mkdir_file[OF 1] by simp
  note t = active_traits_Inr[OF canonical_tables_traits[OF 6]]
  have "nodes w' (out @ [''traits.csv'']) = Some (File T1)"
    using to_csv_Inr[OF 9] by simp
  then show ?thesis using a t resolve_Inr(1)[OF 2] by blast
qed

lemma raw_build:
  "fst (build_canonical_tables raw_world
          [''data'', ''raw'', ''participants_match.csv'']
          [''data'', ''raw'', ''units_match.csv'']
          [''data'', ''raw'', ''traits_match.csv'']
          [''data'', ''processed''] '';'' [''canonical_original''])
     = Inr [''data'', ''processed'', ''canonical_original'']"
  by code_simp

theorem build_canonical_tables_active_traits_witness:
  "\<exists>w'. build_canonical_tables raw_world
           [''data'', ''raw'', ''participants_match.csv'']
           [''data'', ''raw'', ''units_match.csv'']
           [''data'', ''raw'', ''traits_match.csv'']
           [''data'', ''processed''] '';'' [''canonical_original'']
         = (Inr [''data'', ''processed'', ''canonical_original''], w') \<and>
        nodes w' [''data'', ''processed'', ''canonical_original'', ''traits.csv'']
         = Some (File \<lparr>columns = [''match_id'', ''puuid'', ''trait_id'', ''tier_current''],
                      rows = [[(''match_id'', Str ''m1''), (''puuid'', Str ''p1''),
                               (''trait_id'', Str ''Mage''), (''tier_current'', Num 1)],
                              [(''match_id'', Str ''m1''), (''puuid'', Str ''p2''),
                               (''trait_id'', Str ''Sniper''), (''tier_current'', Num 2)]]\<rparr>)"
proof -
  obtain w' where b: "build_canonical_tables raw_world
           [''data'', ''raw'', ''participants_match.csv'']
           [''data'', ''raw'', ''units_match.csv'']
           [''data'', ''raw'', ''traits_match.csv'']
           [''data'', ''processed''] '';'' [''canonical_original'']
         = (Inr [''data'', ''processed'', ''canonical_original''], w')"
    using raw_build by (metis prod.collapse)
  from build_canonical_tables_active_traits[OF b] obtain T where
    t: "node_at raw_world [''data'', ''raw'', ''traits_match.csv''] = Some (File T)"
    and n: "nodes w' ([''data'', ''processed'', ''canonical_original''] @ [''traits.csv''])
               = Some (File \<lparr>columns = columns T,
                             rows = filter (\<lambda>r. positive (cell_of r ''tier_current'')) (rows T)\<rparr>)"
    by blast
  have "T = raw_traits" using t by (simp add: node_at_def raw_world_def)
  then have "nodes w' [''data'', ''processed'', ''canonical_original'', ''traits.csv'']
         = Some (File \<lparr>columns = [''match_id'', ''puuid'', ''trait_id'', ''tier_current''],
                      rows = [[(''match_id'', Str ''m1''), (''puuid'', Str ''p1''),
                               (''trait_id'', Str ''Mage''), (''tier_current'', Num 1)],
                              [(''match_id'', Str ''m1''), (''puuid'', Str ''p2''),
                               (''trait_id'', Str ''Sniper''), (''tier_current'', Num 2)]]\<rparr>)"
    using n by (simp add: raw_traits_def cell_of_def)
  then show ?thesis using b by blast
qed

section \<open>Allocating the output directory\<close>

lemma wf_world_base:
  "wf_world w \<Longrightarrow> path_exists w (b @ l) \<Longrightarrow> l \<noteq> [] \<Longrightarrow> node_at w b = Some Dir"
proof (induction l rule: rev_induct)
  case Nil
  then show ?case by simp
next
  case (snoc x xs)
  have "nodes w (b @ xs @ [x]) \<noteq> None"
    using snoc.prems(2) by (simp add: path_exists_def node_at_def)
  then have d: "node_at w (b @ xs) = Some Dir"
    using snoc.prems(1) unfolding wf_world_def
    by (metis append_assoc butlast_snoc snoc_eq_iff_butlast)
  show ?case
  proof (cases "xs = []")
    case True
    then show ?thesis using d by simp
  next
    case False
    have "path_exists w (b @ xs)" using d by (simp add: path_exists_def)
    then show ?thesis using snoc.IH snoc.prems(1) False by blast
  qed
qed

lemma resolve_exists:
  "path_exists w (base @ label) \<Longrightarrow>
   resolve_processed_output_dir w base label = (Inl (FileExistsError (base @ label)), w)"
  by (simp add: resolve_processed_output_dir_def)

lemma mkdir_parents_fresh:
  assumes "\<not> path_exists w p" and "\<not> list_ex (\<lambda>q. is_file (node_at w q)) (ancestors p)"
  shows "mkdir_parents w p exist_ok =
     Inr (w\<lparr>nodes := (\<lambda>q. if q \<in> set (ancestors p @ [p]) \<and> nodes w q = None
                              then Some Dir else nodes w q)\<rparr>)"
  using assms by (simp add: mkdir_parents_def path_exists_def)

lemma ancestors_not_Nil: "q \<in> set (ancestors p) \<Longrightarrow> q \<noteq> []"
  by (auto simp: ancestors_def)

lemma build_exists:
  assumes "wf_world w" and "path_exists w (base @ label)"
  shows "build_canonical_tables w participants_path units_path traits_path base delimiter label
           = (Inl (FileExistsError (base @ label)), w)"
proof (cases "node_at w base")
  case None
  then have "label \<noteq> []" using assms(2) by (auto simp: path_exists_def)
  then show ?thesis using wf_world_base[OF assms] None by simp
next
  case (Some n)
  show ?thesis
  proof (cases n)
    case Dir
    then have "mkdir_parents w base True = Inr w" using Some by (simp add: mkdir_parents_def)
    then show ?thesis
      by (simp add: build_canonical_tables_def resolve_exists[OF assms(2)])
  next
    case (File t)
    have "label = []"
    proof (rule ccontr)
      assume "label \<noteq> []"
      then show False using wf_world_base[OF assms] Some File by simp
    qed
    moreover have "mkdir_parents w base True = Inl (FileExistsError base)"
      using Some File by (simp add: mkdir_parents_def)
    ultimately show ?thesis by (simp add: build_canonical_tables_def)
  qed
qed

text \<open>
  C4. \<open>resolve_processed_output_dir\<close> fails with \<open>FileExistsError\<close> for
  \<open>base_dir / label\<close> whenever that path exists, and leaves the file system as it was.
  When the path does not exist and no regular file stands in the place of a directory
  above it (the operating system refuses that: an I/O error), it creates the directory
  and the missing directories above it, changes nothing else, reads no file, and returns
  the path. In a well-formed file system where \<open>base_dir / label\<close> exists,
  \<open>build_canonical_tables\<close> fails with that \<open>FileExistsError\<close> whatever the input paths
  are, and the world is unchanged: no input file has been read.
\<close>

theorem resolve_processed_output_dir_allocates:
  "(path_exists w (base_dir @ label) \<longrightarrow>
      resolve_processed_output_dir w base_dir label
        = (Inl (FileExistsError (base_dir @ label)), w)) \<and>
   (\<not> path_exists w (base_dir @ label) \<and>
    \<not> list_ex (\<lambda>q. is_file (node_at w q)) (ancestors (base_dir @ label)) \<longrightarrow>
      (\<exists>w'. resolve_processed_output_dir w base_dir label = (Inr (base_dir @ label), w') \<and>
            reads w' = reads w \<and>
            node_at w' (base_dir @ label) = Some Dir \<and>
            list_all (\<lambda>q. node_at w' q = Some Dir) (ancestors (base_dir @ label)) \<and>
            (\<forall>q. nodes w q \<noteq> None \<longrightarrow> nodes w' q = nodes w q) \<and>
            (\<forall>q. q \<notin> set (ancestors (base_dir @ label) @ [base_dir @ label]) \<longrightarrow>
                   nodes w' q = nodes w q))) \<and>
   (wf_world w \<and> path_exists w (base_dir @ label) \<longrightarrow>
      (\<exists>w'. build_canonical_tables w participants_path units_path traits_path base_dir
               delimiter label = (Inl (FileExistsError (base_dir @ label)), w') \<and>
            reads w' = reads w \<and> nodes w' = nodes w))"
proof -
  let ?p = "base_dir @ label"
  have 2: "\<not> path_exists w ?p \<and> \<not> list_ex (\<lambda>q. is_file (node_at w q)) (ancestors ?p) \<longrightarrow>
      (\<exists>w'. resolve_processed_output_dir w base_dir label = (Inr ?p, w') \<and>
            reads w' = reads w \<and>
            node_at w' ?p = Some Dir \<and>
            list_all (\<lambda>q. node_at w' q = Some Dir) (ancestors ?p) \<and>
            (\<forall>q. nodes w q \<noteq> None \<longrightarrow> nodes w' q = nodes w q) \<and>
            (\<forall>q. q \<notin> set (ancestors ?p @ [?p]) \<longrightarrow> nodes w' q = nodes w q))"
  proof
    assume a: "\<not> path_exists w ?p \<and> \<not> list_ex (\<lambda>q. is_file (node_at w q)) (ancestors ?p)"
    let ?w' = "w\<lparr>nodes := (\<lambda>q. if q \<in> set (ancestors ?p @ [?p]) \<and> nodes w q = None
                              then Some Dir else nodes w q)\<rparr>"
    have m: "mkdir_parents w ?p False = Inr ?w'" using a by (simp add: mkdir_parents_fresh)
    have r: "resolve_processed_output_dir w base_dir label = (Inr ?p, ?w')"
      using a m by (simp add: resolve_processed_output_dir_def Let_def)
    have d: "node_at ?w' ?p = Some Dir" by (rule mkdir_parents_Inr(4)[OF m])
    have anc: "list_all (\<lambda>q. node_at ?w' q = Some Dir) (ancestors ?p)"
      unfolding list_all_iff
    proof
      fix q assume q: "q \<in> set (ancestors ?p)"
      then have ne: "q \<noteq> []" by (rule ancestors_not_Nil)
      have nf: "\<not> is_file (node_at w q)" using a q by (auto simp: list_ex_iff)
      show "node_at ?w' q = Some Dir"
      proof (cases "nodes w q")
        case None
        then show ?thesis using q ne by (simp add: node_at_def)
      next
        case (Some n)
        then show ?thesis using nf ne q by (cases n) (simp_all add: node_at_def)
      qed
    qed
    show "\<exists>w'. resolve_processed_output_dir w base_dir label = (Inr ?p, w') \<and>
            reads w' = reads w \<and>
            node_at w' ?p = Some Dir \<and>
            list_all (\<lambda>q. node_at w' q = Some Dir) (ancestors ?p) \<and>
            (\<forall>q. nodes w q \<noteq> None \<longrightarrow> nodes w' q = nodes w q) \<and>
            (\<forall>q. q \<notin> set (ancestors ?p @ [?p]) \<longrightarrow> nodes w' q = nodes w q)"
      using r d anc by (intro exI[of _ ?w']) simp
  qed
  show ?thesis using resolve_exists[of w base_dir label] 2 build_exists[of w base_dir label]
    by blast
qed

lemma wf_raw_world: "wf_world raw_world"
  by (auto simp: wf_world_def raw_world_def node_at_def split: if_splits)

theorem resolve_processed_output_dir_allocates_witness:
  "path_exists raw_world ([''data''] @ [''raw'']) \<and>
   wf_world raw_world \<and>
   resolve_processed_output_dir raw_world [''data''] [''raw'']
     = (Inl (FileExistsError [''data'', ''raw'']), raw_world) \<and>
   (\<exists>w'. build_canonical_tables raw_world
            [''data'', ''raw'', ''participants_match.csv'']
            [''data'', ''raw'', ''units_match.csv'']
            [''data'', ''raw'', ''traits_match.csv'']
            [''data''] '';'' [''raw'']
          = (Inl (FileExistsError [''data'', ''raw'']), w') \<and> reads w' = []) \<and>
   \<not> path_exists raw_world ([''data'', ''processed''] @ [''canonical_original'']) \<and>
   \<not> list_ex (\<lambda>q. is_file (node_at raw_world q))
        (ancestors ([''data'', ''processed''] @ [''canonical_original''])) \<and>
   (\<exists>w'. resolve_processed_output_dir raw_world [''data'', ''processed''] [''canonical_original'']
          = (Inr [''data'', ''processed'', ''canonical_original''], w') \<and>
         node_at w' [''data'', ''processed'', ''canonical_original''] = Some Dir \<and>
         node_at w' [''data'', ''processed''] = Some Dir \<and>
         reads w' = [])"
proof -
  have x: "path_exists raw_world ([''data''] @ [''raw''])"
    by (simp add: path_exists_def node_at_def raw_world_def)
  have f: "\<not> path_exists raw_world ([''data'', ''processed''] @ [''canonical_original''])"
    by (simp add: path_exists_def node_at_def raw_world_def)
  have a: "ancestors ([''data'', ''processed''] @ [''canonical_original''])
             = [[''data''], [''data'', ''processed'']]"
    by (simp add: ancestors_def upt_rec)
  have n: "\<not> list_ex (\<lambda>q. is_file (node_at raw_world q))
        (ancestors ([''data'', ''processed''] @ [''canonical_original'']))"
    unfolding a by (simp add: node_at_def raw_world_def)
  have r: "reads raw_world = []" by (simp add: raw_world_def)
  note t1 = resolve_processed_output_dir_allocates[of raw_world "[''data'']" "[''raw'']"
      "[''data'', ''raw'', ''participants_match.csv'']" "[''data'', ''raw'', ''units_match.csv'']"
      "[''data'', ''raw'', ''traits_match.csv'']" "'';''"]
  note t2 = resolve_processed_output_dir_allocates[of raw_world "[''data'', ''processed'']"
      "[''canonical_original'']"]
  have 1: "resolve_processed_output_dir raw_world [''data''] [''raw'']
     = (Inl (FileExistsError [''data'', ''raw'']), raw_world)"
    using t1 x by simp
  have 3: "\<exists>w'. build_canonical_tables raw_world
            [''data'', ''raw'', ''participants_match.csv'']
            [''data'', ''raw'', ''units_match.csv'']
            [''data'', ''raw'', ''traits_match.csv'']
            [''data''] '';'' [''raw'']
          = (Inl (FileExistsError [''data'', ''raw'']), w') \<and> reads w' = []"
    using t1 x wf_raw_world r by auto
  from t2 f n obtain w' where
    s: "resolve_processed_output_dir raw_world [''data'', ''processed''] [''canonical_original'']
          = (Inr ([''data'', ''processed''] @ [''canonical_original'']), w')"
    and rd: "reads w' = reads raw_world"
    and d: "node_at w' ([''data'', ''processed''] @ [''canonical_original'']) = Some Dir"
    and an: "list_all (\<lambda>q. node_at w' q = Some Dir)
               (ancestors ([''data'', ''processed''] @ [''canonical_original'']))"
    by blast
  have 2: "\<exists>w'. resolve_processed_output_dir raw_world [''data'', ''processed''] [''canonical_original'']
          = (Inr [''data'', ''processed'', ''canonical_original''], w') \<and>
         node_at w' [''data'', ''processed'', ''canonical_original''] = Some Dir \<and>
         node_at w' [''data'', ''processed''] = Some Dir \<and>
         reads w' = []"
    using s rd d an r unfolding a by (intro exI[of _ w']) simp
  show ?thesis using x wf_raw_world 1 3 f n 2 by blast
qed

section \<open>Missing columns\<close>

lemma canonical_tables_missing:
  assumes "mp = filter (\<lambda>col. col \<notin> set (columns P)) [''match_id'', ''puuid'', ''placement'', ''level'']"
    and "mu = filter (\<lambda>col. col \<notin> set (columns U))
                 [''match_id'', ''puuid'', ''unit_id'', ''star_level'', ''items'']"
    and "mt = filter (\<lambda>col. col \<notin> set (columns T))
                 [''match_id'', ''puuid'', ''trait_id'', ''tier_current'']"
    and "mp @ mu @ mt \<noteq> []"
  shows "canonical_tables P U T delimiter =
           Inl (if mp \<noteq> [] then MissingColumns ''participants'' mp
                else if mu \<noteq> [] then MissingColumns ''units'' mu
                else MissingColumns ''traits'' mt)"
proof -
  have p: "ensure_columns P [''match_id'', ''puuid'', ''placement'', ''level''] ''participants''
             = (if mp \<noteq> [] then Inl (MissingColumns ''participants'' mp) else Inr ())"
    unfolding ensure_columns_def Let_def assms(1) ..
  have u: "ensure_columns U [''match_id'', ''puuid'', ''unit_id'', ''star_level'', ''items''] ''units''
             = (if mu \<noteq> [] then Inl (MissingColumns ''units'' mu) else Inr ())"
    unfolding ensure_columns_def Let_def assms(2) ..
  have t: "ensure_columns T [''match_id'', ''puuid'', ''trait_id'', ''tier_current''] ''traits''
             = (if mt \<noteq> [] then Inl (MissingColumns ''traits'' mt) else Inr ())"
    unfolding ensure_columns_def Let_def assms(3) ..
  show ?thesis
    unfolding canonical_tables_def p u t using assms(4) by auto
qed

lemma build_after_reading:
  assumes 1: "mkdir_parents w base True = Inr w1"
    and 2: "resolve_processed_output_dir w1 base label = (Inr out, w2)"
    and p: "node_at w participants_path = Some (File P)"
    and u: "node_at w units_path = Some (File U)"
    and t: "node_at w traits_path = Some (File T)"
    and c: "canonical_tables P U T delimiter = Inl e"
  shows "build_canonical_tables w participants_path units_path traits_path base delimiter label
           = (Inl e, w2\<lparr>reads := reads w @ [participants_path, units_path, traits_path]\<rparr>)"
proof -
  note m2 = resolve_Inr(2)[OF 2]
  have r: "reads w2 = reads w" using mkdir_parents_Inr(1)[OF m2] mkdir_parents_Inr(1)[OF 1] by simp
  have f: "node_at w2 q = Some (File x)" if "node_at w q = Some (File x)" for q x
    using that node_at_mkdir_file[OF 1] node_at_mkdir_file[OF m2] by simp
  have a: "read_csv w2 participants_path = (Inr P, w2\<lparr>reads := reads w @ [participants_path]\<rparr>)"
    using read_csv_file[OF f[OF p]] by (simp add: r)
  have b: "read_csv (w2\<lparr>reads := reads w @ [participants_path]\<rparr>) units_path
             = (Inr U, w2\<lparr>reads := reads w @ [participants_path, units_path]\<rparr>)"
    using read_csv_file[of "w2\<lparr>reads := reads w @ [participants_path]\<rparr>" units_path U] f[OF u]
    by simp
  have d: "read_csv (w2\<lparr>reads := reads w @ [participants_path, units_path]\<rparr>) traits_path
             = (Inr T, w2\<lparr>reads := reads w @ [participants_path, units_path, traits_path]\<rparr>)"
    using read_csv_file[of "w2\<lparr>reads := reads w @ [participants_path, units_path]\<rparr>" traits_path T]
      f[OF t]
    by simp
  show ?thesis
    by (simp add: build_canonical_tables_def 1 2 a b d c)
qed

text \<open>
  C1, as the code has it. Let the output directory be allocated and the three inputs be
  files holding the tables \<open>P\<close>, \<open>U\<close> and \<open>T\<close>. When a required column is absent from one
  of them, \<open>build_canonical_tables\<close> fails with the column error of the first table, in
  the order participants, units, traits, that lacks one; the error carries every missing
  column of that table and none of the tables checked after it. The failure comes before
  any transform: it does not depend on the cells, and the file system is the one left by
  the allocation, with the three inputs read and nothing written.
\<close>

theorem build_canonical_tables_missing_columns:
  assumes "mkdir_parents w base True = Inr w1"
    and "resolve_processed_output_dir w1 base label = (Inr out, w2)"
    and "node_at w participants_path = Some (File P)"
    and "node_at w units_path = Some (File U)"
    and "node_at w traits_path = Some (File T)"
    and "missing_p = filter (\<lambda>col. col \<notin> set (columns P))
                       [''match_id'', ''puuid'', ''placement'', ''level'']"
    and "missing_u = filter (\<lambda>col. col \<notin> set (columns U))
                       [''match_id'', ''puuid'', ''unit_id'', ''star_level'', ''items'']"
    and "missing_t = filter (\<lambda>col. col \<notin> set (columns T))
                       [''match_id'', ''puuid'', ''trait_id'', ''tier_current'']"
    and "missing_p @ missing_u @ missing_t \<noteq> []"
  shows "build_canonical_tables w participants_path units_path traits_path base delimiter label
           = (Inl (if missing_p \<noteq> [] then MissingColumns ''participants'' missing_p
                   else if missing_u \<noteq> [] then MissingColumns ''units'' missing_u
                   else MissingColumns ''traits'' missing_t),
              w2\<lparr>reads := reads w @ [participants_path, units_path, traits_path]\<rparr>)"
  using build_after_reading[OF assms(1-5) canonical_tables_missing[OF assms(6-9)]] .

lemma short_world_build:
  "fst (build_canonical_tables short_world
          [''data'', ''raw'', ''participants_match.csv'']
          [''data'', ''raw'', ''units_match.csv'']
          [''data'', ''raw'', ''traits_match.csv'']
          [''data'', ''processed''] '';'' [''canonical_original''])
     = Inl (MissingColumns ''participants'' [''level''])"
  by code_simp

lemma mkdir_parents_other:
  "mkdir_parents w p exist_ok = Inr w' \<Longrightarrow> q \<notin> set (ancestors p @ [p]) \<Longrightarrow>
   nodes w' q = nodes w q"
  by (auto simp: mkdir_parents_def split: option.splits node.splits if_splits)

lemma short_world_allocation:
  "\<exists>w1 w2. mkdir_parents short_world [''data'', ''processed''] True = Inr w1 \<and>
     resolve_processed_output_dir w1 [''data'', ''processed''] [''canonical_original'']
       = (Inr [''data'', ''processed'', ''canonical_original''], w2) \<and>
     nodes w2 [''data'', ''processed'', ''canonical_original'', ''participants.csv''] = None \<and>
     nodes w2 [''data'', ''processed'', ''canonical_original'', ''units.csv''] = None \<and>
     nodes w2 [''data'', ''processed'', ''canonical_original'', ''traits.csv''] = None"
proof -
  let ?b = "[''data'', ''processed'']"
  let ?o = "[''data'', ''processed'', ''canonical_original'']"
  have a1: "ancestors ?b = [[''data'']]" by (simp add: ancestors_def upt_rec)
  have a2: "ancestors ?o = [[''data''], ?b]" by (simp add: ancestors_def upt_rec)
  have "\<not> path_exists short_world ?b"
    and "\<not> list_ex (\<lambda>q. is_file (node_at short_world q)) (ancestors ?b)"
    unfolding a1 by (simp_all add: path_exists_def node_at_def short_world_def)
  from mkdir_parents_fresh[OF this, of True] obtain w1 where
    m1: "mkdir_parents short_world ?b True = Inr w1" by blast
  have d1: "node_at w1 ?b = Some Dir" by (rule mkdir_parents_Inr(4)[OF m1])
  have k1: "nodes w1 [''data''] = Some Dir"
    using mkdir_parents_Inr(2)[OF m1, of "[''data'']"] by (simp add: short_world_def)
  have o1: "nodes w1 ?o = None"
    using mkdir_parents_other[OF m1, of ?o] by (simp add: a1 short_world_def)
  have "\<not> path_exists w1 ?o" using o1 by (simp add: path_exists_def node_at_def)
  moreover have "\<not> list_ex (\<lambda>q. is_file (node_at w1 q)) (ancestors ?o)"
    unfolding a2 using d1 k1 by (simp add: node_at_def)
  ultimately obtain w2 where m2: "mkdir_parents w1 ?o False = Inr w2"
    using mkdir_parents_fresh[of w1 ?o False] by blast
  have r: "resolve_processed_output_dir w1 ?b [''canonical_original''] = (Inr ?o, w2)"
    using m2 o1 by (simp add: resolve_processed_output_dir_def path_exists_def node_at_def)
  have n: "nodes w2 (?o @ [f]) = None" for f
    using mkdir_parents_other[OF m2, of "?o @ [f]"] mkdir_parents_other[OF m1, of "?o @ [f]"]
    by (simp add: a1 a2 short_world_def)
  show ?thesis using m1 r n[of "''participants.csv''"] n[of "''units.csv''"] n[of "''traits.csv''"]
    by (intro exI[of _ w1] exI[of _ w2]) simp
qed

theorem build_canonical_tables_missing_columns_witness:
  "\<exists>w'. build_canonical_tables short_world
           [''data'', ''raw'', ''participants_match.csv'']
           [''data'', ''raw'', ''units_match.csv'']
           [''data'', ''raw'', ''traits_match.csv'']
           [''data'', ''processed''] '';'' [''canonical_original'']
         = (Inl (MissingColumns ''participants'' [''level'']), w') \<and>
        reads w' = [[''data'', ''raw'', ''participants_match.csv''],
                    [''data'', ''raw'', ''units_match.csv''],
                    [''data'', ''raw'', ''traits_match.csv'']] \<and>
        node_at w' [''data'', ''processed'', ''canonical_original''] = Some Dir \<and>
        nodes w' [''data'', ''processed'', ''canonical_original'', ''participants.csv''] = None \<and>
        nodes w' [''data'', ''processed'', ''canonical_original'', ''units.csv''] = None \<and>
        nodes w' [''data'', ''processed'', ''canonical_original'', ''traits.csv''] = None"
proof -
  from short_world_allocation obtain w1 w2 where
    1: "mkdir_parents short_world [''data'', ''processed''] True = Inr w1"
    and 2: "resolve_processed_output_dir w1 [''data'', ''processed''] [''canonical_original'']
       = (Inr [''data'', ''processed'', ''canonical_original''], w2)"
    and n: "nodes w2 [''data'', ''processed'', ''canonical_original'', ''participants.csv''] = None"
      "nodes w2 [''data'', ''processed'', ''canonical_original'', ''units.csv''] = None"
      "nodes w2 [''data'', ''processed'', ''canonical_original'', ''traits.csv''] = None"
    by blast
  have p: "node_at short_world [''data'', ''raw'', ''participants_match.csv'']
             = Some (File short_participants)"
    and u: "node_at short_world [''data'', ''raw'', ''units_match.csv''] = Some (File short_units)"
    and t: "node_at short_world [''data'', ''raw'', ''traits_match.csv''] = Some (File raw_traits)"
    by (simp_all add: node_at_def short_world_def)
  have mp: "[''level''] = filter (\<lambda>col. col \<notin> set (columns short_participants))
                       [''match_id'', ''puuid'', ''placement'', ''level'']"
    and mu: "[''items''] = filter (\<lambda>col. col \<notin> set (columns short_units))
                       [''match_id'', ''puuid'', ''unit_id'', ''star_level'', ''items'']"
    and mt: "[] = filter (\<lambda>col. col \<notin> set (columns raw_traits))
                       [''match_id'', ''puuid'', ''trait_id'', ''tier_current'']"
    by (simp_all add: short_participants_def short_units_def raw_traits_def)
  have ne: "[''level''] @ [''items''] @ [] \<noteq> ([] :: string list)" by simp
  have d: "node_at w2 [''data'', ''processed'', ''canonical_original''] = Some Dir"
    using mkdir_parents_Inr(4)[OF resolve_Inr(2)[OF 2]] by simp
  have r: "reads short_world = []" by (simp add: short_world_def)
  show ?thesis
    using build_canonical_tables_missing_columns[OF 1 2 p u t mp mu mt ne, of "'';''"] n d r
    by (intro exI[of _ "w2\<lparr>reads := reads short_world
            @ [[''data'', ''raw'', ''participants_match.csv''],
               [''data'', ''raw'', ''units_match.csv''],
               [''data'', ''raw'', ''traits_match.csv'']]\<rparr>"]) simp
qed

theorem build_canonical_tables_names_first_table_only:
  "node_at short_world [''data'', ''raw'', ''units_match.csv''] = Some (File short_units) \<and>
   ''items'' \<notin> set (columns short_units) \<and>
   fst (build_canonical_tables short_world
          [''data'', ''raw'', ''participants_match.csv'']
          [''data'', ''raw'', ''units_match.csv'']
          [''data'', ''raw'', ''traits_match.csv'']
          [''data'', ''processed''] '';'' [''canonical_original''])
     = Inl (MissingColumns ''participants'' [''level''])"
  using short_world_build by (simp add: node_at_def short_world_def short_units_def)


end
